theory Spec2Isabelle
  imports Complex_Main "HOL-Library.Multiset"
begin


section \<open>Nearest-projection mapping\<close>

text \<open>
  A shallow embedding of \<^verbatim>\<open>NearestProjectionMapping\<close> (constructor,
  \<^verbatim>\<open>computeMapping\<close>, \<^verbatim>\<open>hasComputedMapping\<close>, \<^verbatim>\<open>clear\<close>,
  \<^verbatim>\<open>map\<close>, \<^verbatim>\<open>tagMeshFirstRound\<close>, \<^verbatim>\<open>tagMeshSecondRound\<close>).

  Conventions of the embedding.
  \<^item> A \<^verbatim>\<open>double\<close> is a finite real number. The product and the sum that \<open>map\<close>
    computes are rounded to IEEE 754 binary64 (round to nearest, ties to even, subnormal
    numbers included), each operation on its own (no fused multiply-add). A result beyond the largest finite
    double, where the machine yields an infinity, ends the run with the result
    \<open>NotFinite\<close>; infinite and NaN inputs are not modelled. Comparisons of doubles are
    exact.
  \<^item> \<^verbatim>\<open>size_t\<close> values, container positions and vertex identifiers are natural
    numbers; no offset computed below comes near the wrap-around of \<^verbatim>\<open>size_t\<close>.
  \<^item> A mesh is shared through a \<^verbatim>\<open>PtrMesh\<close>: meshes live in a store indexed by
    mesh addresses, and a mapping holds two optional addresses (a null pointer is \<open>None\<close>).
  \<^item> A \<^verbatim>\<open>Vertex*\<close> is the address of the mesh together with the position of the
    vertex in the vertex container of that mesh.
  \<^item> \<^verbatim>\<open>assertion(...)\<close> that fails, a null mesh, an access outside a container
    and a value that leaves the finite doubles are results of type \<open>failure\<close>.
\<close>

subsection \<open>Data model\<close>

datatype Constraint = CONSISTENT | CONSERVATIVE

datatype MeshRequirement = UNDEFINED | VERTEX | FULL

datatype failure = NullMesh | AssertionFailed | OutOfRange | NotFinite

type_synonym mesh_id = nat

datatype vertex_ptr = VertexPtr mesh_id nat

record Vertex =
  getID :: nat
  getCoords :: "real list"
  isTagged :: bool

record Data =
  dataValues :: "real list"
  dataDimensions :: nat

text \<open>
  Edges and triangles name their corner vertices by position in the vertex container of
  their own mesh. \<open>dataOf\<close> is \<^verbatim>\<open>Mesh::data(dataID)\<close>.
\<close>

record Mesh =
  vertices :: "Vertex list"
  edges :: "(nat \<times> nat) list"
  triangles :: "(nat \<times> nat \<times> nat) list"
  dataOf :: "nat \<Rightarrow> Data option"

type_synonym store = "mesh_id \<Rightarrow> Mesh"

record InterpolationElement =
  element :: vertex_ptr
  weight :: real

type_synonym InterpolationElements = "InterpolationElement list"

record MatchType =
  distance :: real
  index :: nat

text \<open>\<^verbatim>\<open>MatchType::operator<\<close>: the distance alone is compared.\<close>

definition less_MatchType :: "MatchType \<Rightarrow> MatchType \<Rightarrow> bool" where
  "less_MatchType a other = (distance a < distance other)"

text \<open>
  The members of the mapping: those of the base class \<^verbatim>\<open>Mapping\<close> (constraint,
  dimensions, the two meshes, the two requirements) and \<^verbatim>\<open>_weights\<close>,
  \<^verbatim>\<open>_hasComputedMapping\<close>.
\<close>

record NearestProjectionMapping =
  getConstraint :: Constraint
  getDimensions :: int
  inputMesh :: "mesh_id option"
  outputMesh :: "mesh_id option"
  getInputRequirement :: MeshRequirement
  getOutputRequirement :: MeshRequirement
  m_weights :: "InterpolationElements list"
  m_hasComputedMapping :: bool

subsection \<open>Double arithmetic\<close>

text \<open>
  The binary exponent of a positive real \<open>a\<close>: the \<open>e\<close> with \<open>2^e \<le> a < 2^(e+1)\<close>, found
  by halving or doubling, but not below \<open>-1022\<close> (the exponent of the subnormal numbers)
  and not above \<open>1024\<close> (beyond the largest finite double).
\<close>

fun exponentUp :: "nat \<Rightarrow> real \<Rightarrow> int" where
  "exponentUp 0 a = 0"
| "exponentUp (Suc n) a = (if 2 \<le> a then exponentUp n (a / 2) + 1 else 0)"

fun exponentDown :: "nat \<Rightarrow> real \<Rightarrow> int" where
  "exponentDown 0 a = 0"
| "exponentDown (Suc n) a = (if a < 1 then exponentDown n (2 * a) - 1 else 0)"

definition exponentOf :: "real \<Rightarrow> int" where
  "exponentOf a = (if 1 \<le> a then exponentUp 1024 a else exponentDown 1022 a)"

definition pow2 :: "int \<Rightarrow> real" where
  "pow2 e = (if 0 \<le> e then 2 ^ nat e else 1 / 2 ^ nat (- e))"

text \<open>The nearest integer; a tie goes to the even one.\<close>

definition roundHalfEven :: "real \<Rightarrow> int" where
  "roundHalfEven y =
     (if y - of_int \<lfloor>y\<rfloor> < 1 / 2 then \<lfloor>y\<rfloor>
      else if 1 / 2 < y - of_int \<lfloor>y\<rfloor> then \<lfloor>y\<rfloor> + 1
      else if even \<lfloor>y\<rfloor> then \<lfloor>y\<rfloor> else \<lfloor>y\<rfloor> + 1)"

text \<open>
  Rounding to binary64: the magnitude is rounded to a multiple of the unit in the last of
  its 53 significant bits, \<open>2^(e - 52)\<close>.
\<close>

definition roundDouble :: "real \<Rightarrow> real" where
  "roundDouble x =
     (if x = 0 then 0
      else sgn x * of_int (roundHalfEven (\<bar>x\<bar> / pow2 (exponentOf \<bar>x\<bar> - 52))) *
           pow2 (exponentOf \<bar>x\<bar> - 52))"

text \<open>
  \<^verbatim>\<open>a * b\<close> and \<^verbatim>\<open>a + b\<close> on doubles: the exact result, rounded; \<open>None\<close> when the
  rounded result is not a finite double.
\<close>

definition mulDouble :: "real \<Rightarrow> real \<Rightarrow> real option" where
  "mulDouble a b =
     (if 2 ^ 1024 \<le> \<bar>roundDouble (a * b)\<bar> then None else Some (roundDouble (a * b)))"

definition addDouble :: "real \<Rightarrow> real \<Rightarrow> real option" where
  "addDouble a b =
     (if 2 ^ 1024 \<le> \<bar>roundDouble (a + b)\<bar> then None else Some (roundDouble (a + b)))"

subsection \<open>Collaborators that are not part of the sources at hand\<close>

text \<open>
  The spatial index (\<^verbatim>\<open>mesh::rtree\<close>, Boost.Geometry), \<^verbatim>\<open>bg::distance\<close>, the
  barycentric coordinates computed inside \<^verbatim>\<open>query::generateInterpolationElements\<close>
  and \<^verbatim>\<open>math::equals\<close> are parameters of the model. A query takes the search
  mesh, the coordinates of the origin and the number of neighbours asked for, and yields
  positions of primitives of the search mesh, in the order in which the index emits them.
\<close>

record collaborators =
  queryTriangles :: "Mesh \<Rightarrow> real list \<Rightarrow> nat \<Rightarrow> nat list"
  queryEdges :: "Mesh \<Rightarrow> real list \<Rightarrow> nat \<Rightarrow> nat list"
  queryVertices :: "Mesh \<Rightarrow> real list \<Rightarrow> nat \<Rightarrow> nat list"
  distanceTriangle :: "Mesh \<Rightarrow> real list \<Rightarrow> nat \<Rightarrow> real"
  distanceEdge :: "Mesh \<Rightarrow> real list \<Rightarrow> nat \<Rightarrow> real"
  barycentricTriangle :: "Mesh \<Rightarrow> Vertex \<Rightarrow> nat \<Rightarrow> real \<times> real \<times> real"
  barycentricEdge :: "Mesh \<Rightarrow> Vertex \<Rightarrow> nat \<Rightarrow> real \<times> real"
  equals :: "real \<Rightarrow> real \<Rightarrow> bool"

text \<open>
  Modelled from the spec: \<^verbatim>\<open>query::generateInterpolationElements\<close>
  (query/FindClosest.hpp) is missing from the sources. Following section 4.1 it emits one
  element per corner of the primitive, in corner order, and \<open>{(v, 1)}\<close> for a vertex;
  the weights of an edge and of a triangle are those the collaborators compute.
\<close>

definition generateInterpolationElementsVertex ::
  "mesh_id \<Rightarrow> nat \<Rightarrow> InterpolationElements" where
  "generateInterpolationElementsVertex sid k = [\<lparr>element = VertexPtr sid k, weight = 1\<rparr>]"

definition generateInterpolationElementsEdge ::
  "collaborators \<Rightarrow> mesh_id \<Rightarrow> Mesh \<Rightarrow> Vertex \<Rightarrow> nat \<Rightarrow> InterpolationElements" where
  "generateInterpolationElementsEdge env sid S v k =
     (case edges S ! k of (a, b) \<Rightarrow>
        (case barycentricEdge env S v k of (wa, wb) \<Rightarrow>
           [\<lparr>element = VertexPtr sid a, weight = wa\<rparr>,
            \<lparr>element = VertexPtr sid b, weight = wb\<rparr>]))"

definition generateInterpolationElementsTriangle ::
  "collaborators \<Rightarrow> mesh_id \<Rightarrow> Mesh \<Rightarrow> Vertex \<Rightarrow> nat \<Rightarrow> InterpolationElements" where
  "generateInterpolationElementsTriangle env sid S v k =
     (case triangles S ! k of (a, b, c) \<Rightarrow>
        (case barycentricTriangle env S v k of (wa, wb, wc) \<Rightarrow>
           [\<lparr>element = VertexPtr sid a, weight = wa\<rparr>,
            \<lparr>element = VertexPtr sid b, weight = wb\<rparr>,
            \<lparr>element = VertexPtr sid c, weight = wc\<rparr>]))"

subsection \<open>Constructor\<close>

text \<open>
  Modelled from the spec: the constructor of the base class \<^verbatim>\<open>Mapping\<close> and its
  setters are missing from the sources. The base class stores the constraint and the
  dimensions; no mesh is set, no requirement is declared, and the instance starts in the
  Empty state (section 4.6).
\<close>

definition Mapping :: "Constraint \<Rightarrow> int \<Rightarrow> NearestProjectionMapping" where
  "Mapping c d =
     \<lparr>getConstraint = c, getDimensions = d, inputMesh = None, outputMesh = None,
      getInputRequirement = UNDEFINED, getOutputRequirement = UNDEFINED,
      m_weights = [], m_hasComputedMapping = False\<rparr>"

definition setInputRequirement ::
  "MeshRequirement \<Rightarrow> NearestProjectionMapping \<Rightarrow> NearestProjectionMapping" where
  "setInputRequirement r m = m\<lparr>getInputRequirement := r\<rparr>"

definition setOutputRequirement ::
  "MeshRequirement \<Rightarrow> NearestProjectionMapping \<Rightarrow> NearestProjectionMapping" where
  "setOutputRequirement r m = m\<lparr>getOutputRequirement := r\<rparr>"

definition setMeshes ::
  "mesh_id \<Rightarrow> mesh_id \<Rightarrow> NearestProjectionMapping \<Rightarrow> NearestProjectionMapping" where
  "setMeshes inp out m = m\<lparr>inputMesh := Some inp, outputMesh := Some out\<rparr>"

text \<open>
  \<^verbatim>\<open>NearestProjectionMapping::NearestProjectionMapping(constraint, dimensions)\<close>.
  The assertion of the else branch cannot fail: the enumeration has two values.
\<close>

definition newNearestProjectionMapping :: "Constraint \<Rightarrow> int \<Rightarrow> NearestProjectionMapping" where
  "newNearestProjectionMapping c d =
     (if c = CONSISTENT
      then setOutputRequirement VERTEX (setInputRequirement FULL (Mapping c d))
      else setOutputRequirement FULL (setInputRequirement VERTEX (Mapping c d)))"

subsection \<open>computeMapping\<close>

definition nnearest :: nat where
  "nnearest = 4"

text \<open>\<^verbatim>\<open>_weights.resize(n)\<close>: entries below \<open>n\<close> are kept, missing ones are empty.\<close>

definition resize :: "nat \<Rightarrow> InterpolationElements list \<Rightarrow> InterpolationElements list" where
  "resize n ws = take n ws @ replicate (n - length ws) []"

text \<open>
  The output iterator of a query on triangles or edges: every position \<open>k\<close> the index
  emits is turned into \<^verbatim>\<open>MatchType(bg::distance(coords, prims[k]), k)\<close>. \<open>n\<close> is the
  size of the container of primitives.
\<close>

definition collectMatches :: "(nat \<Rightarrow> real) \<Rightarrow> nat \<Rightarrow> nat list \<Rightarrow> failure + MatchType list" where
  "collectMatches d n ks =
     (if list_all (\<lambda>k. k < n) ks
      then Inr (map (\<lambda>k. \<lparr>distance = d k, index = k\<rparr>) ks)
      else Inl OutOfRange)"

text \<open>
  \<^verbatim>\<open>std::sort(matches.begin(), matches.end())\<close> with \<^verbatim>\<open>operator<\<close>: ascending in
  the distance. The order which \<^verbatim>\<open>std::sort\<close> gives to matches of equal distance is
  unspecified; the model keeps them in the order of the query.
\<close>

definition std_sort :: "MatchType list \<Rightarrow> MatchType list" where
  "std_sort ms = sort_key distance ms"

definition allNonNegative :: "InterpolationElements \<Rightarrow> bool" where
  "allNonNegative ws = list_all (\<lambda>elem. 0 \<le> weight elem) ws"

text \<open>
  The loop over the sorted matches, left at the first match whose elements all have a
  weight \<open>\<ge> 0\<close>; \<open>None\<close> is \<^verbatim>\<open>found == false\<close>.
\<close>

fun firstInterior ::
  "(nat \<Rightarrow> InterpolationElements) \<Rightarrow> MatchType list \<Rightarrow> InterpolationElements option" where
  "firstInterior gen [] = None"
| "firstInterior gen (match # rest) =
     (if allNonNegative (gen (index match)) then Some (gen (index match))
      else firstInterior gen rest)"

text \<open>
  The output iterator of the query on vertices: every position emitted is assigned to
  \<^verbatim>\<open>_weights[i]\<close> as a unit stencil. \<open>n\<close> is the number of vertices of the search mesh.
\<close>

fun assignVertexMatches ::
  "mesh_id \<Rightarrow> nat \<Rightarrow> nat \<Rightarrow> nat list \<Rightarrow> InterpolationElements list \<Rightarrow>
   failure + InterpolationElements list" where
  "assignVertexMatches sid n i [] ws = Inr ws"
| "assignVertexMatches sid n i (k # ks) ws =
     (if k < n
      then assignVertexMatches sid n i ks (ws[i := generateInterpolationElementsVertex sid k])
      else Inl OutOfRange)"

text \<open>
  The search in the edges followed, when nothing was found, by the search in the
  vertices: the body of the loop in two dimensions, and the second half of the body in
  three dimensions.
\<close>

definition searchEdgesThenVertices ::
  "collaborators \<Rightarrow> mesh_id \<Rightarrow> Mesh \<Rightarrow> Vertex \<Rightarrow> nat \<Rightarrow> InterpolationElements list \<Rightarrow>
   failure + InterpolationElements list" where
  "searchEdgesThenVertices env sid S v i ws =
     (case collectMatches (distanceEdge env S (getCoords v)) (length (edges S))
             (queryEdges env S (getCoords v) nnearest) of
        Inl f \<Rightarrow> Inl f
      | Inr matches \<Rightarrow>
          (case firstInterior (generateInterpolationElementsEdge env sid S v) (std_sort matches) of
             Some w \<Rightarrow> Inr (ws[i := w])
           | None \<Rightarrow>
               assignVertexMatches sid (length (vertices S)) i
                 (queryVertices env S (getCoords v) 1) ws))"

definition searchTrianglesFirst ::
  "collaborators \<Rightarrow> mesh_id \<Rightarrow> Mesh \<Rightarrow> Vertex \<Rightarrow> nat \<Rightarrow> InterpolationElements list \<Rightarrow>
   failure + InterpolationElements list" where
  "searchTrianglesFirst env sid S v i ws =
     (case collectMatches (distanceTriangle env S (getCoords v)) (length (triangles S))
             (queryTriangles env S (getCoords v) nnearest) of
        Inl f \<Rightarrow> Inl f
      | Inr matches \<Rightarrow>
          (case firstInterior (generateInterpolationElementsTriangle env sid S v)
                  (std_sort matches) of
             Some w \<Rightarrow> Inr (ws[i := w])
           | None \<Rightarrow> searchEdgesThenVertices env sid S v i ws))"

text \<open>The loop \<^verbatim>\<open>for (size_t i = 0; i < fVertices.size(); i++)\<close>, from position \<open>i\<close> on.\<close>

fun forOrigins ::
  "(Vertex \<Rightarrow> nat \<Rightarrow> InterpolationElements list \<Rightarrow> failure + InterpolationElements list) \<Rightarrow>
   nat \<Rightarrow> Vertex list \<Rightarrow> InterpolationElements list \<Rightarrow> failure + InterpolationElements list" where
  "forOrigins body i [] ws = Inr ws"
| "forOrigins body i (v # vs) ws =
     (case body v i ws of
        Inl f \<Rightarrow> Inl f
      | Inr ws' \<Rightarrow> forOrigins body (Suc i) vs ws')"

text \<open>The mesh of the origins and the search mesh, by constraint.\<close>

definition originsOf :: "NearestProjectionMapping \<Rightarrow> mesh_id \<Rightarrow> mesh_id \<Rightarrow> mesh_id" where
  "originsOf m inp out = (if getConstraint m = CONSISTENT then out else inp)"

definition searchSpaceOf :: "NearestProjectionMapping \<Rightarrow> mesh_id \<Rightarrow> mesh_id \<Rightarrow> mesh_id" where
  "searchSpaceOf m inp out = (if getConstraint m = CONSISTENT then inp else out)"

definition computeMapping ::
  "collaborators \<Rightarrow> store \<Rightarrow> NearestProjectionMapping \<Rightarrow> failure + NearestProjectionMapping" where
  "computeMapping env \<sigma> m =
     (case inputMesh m of
        None \<Rightarrow> Inl NullMesh
      | Some inp \<Rightarrow>
          (case outputMesh m of
             None \<Rightarrow> Inl NullMesh
           | Some out \<Rightarrow>
               (let fVertices = vertices (\<sigma> (originsOf m inp out));
                    sid = searchSpaceOf m inp out;
                    body = (if getDimensions m = 2
                            then searchEdgesThenVertices env sid (\<sigma> sid)
                            else searchTrianglesFirst env sid (\<sigma> sid))
                in (case forOrigins body 0 fVertices (resize (length fVertices) (m_weights m)) of
                      Inl f \<Rightarrow> Inl f
                    | Inr ws \<Rightarrow> Inr (m\<lparr>m_weights := ws, m_hasComputedMapping := True\<rparr>)))))"

subsection \<open>hasComputedMapping and clear\<close>

definition hasComputedMapping :: "NearestProjectionMapping \<Rightarrow> bool" where
  "hasComputedMapping m = m_hasComputedMapping m"

definition clear :: "NearestProjectionMapping \<Rightarrow> NearestProjectionMapping" where
  "clear m = m\<lparr>m_weights := [], m_hasComputedMapping := False\<rparr>"

subsection \<open>map\<close>

text \<open>
  The innermost loop \<^verbatim>\<open>for (int dim = 0; dim < dimensions; dim++)\<close> with its two
  assertions, over the components \<open>k\<close> left:
  \<^verbatim>\<open>outValues(outOffset + dim) += elem.weight * inValues(inOffset + dim)\<close>, the product
  rounded and then the sum rounded. \<open>aliased\<close> tells that \<^verbatim>\<open>inValues\<close> and \<^verbatim>\<open>outValues\<close> are references
  to the values of one and the same data object; then every read sees the writes before it.
\<close>

fun addWeighted ::
  "bool \<Rightarrow> real list \<Rightarrow> nat \<Rightarrow> nat \<Rightarrow> real \<Rightarrow> nat list \<Rightarrow> real list \<Rightarrow> failure + real list" where
  "addWeighted aliased inValues outOffset inOffset w [] outValues = Inr outValues"
| "addWeighted aliased inValues outOffset inOffset w (k # ks) outValues =
     (if outOffset + k < length outValues \<and>
         inOffset + k < length (if aliased then outValues else inValues)
      then (case mulDouble w ((if aliased then outValues else inValues) ! (inOffset + k)) of
              None \<Rightarrow> Inl NotFinite
            | Some p \<Rightarrow>
                (case addDouble (outValues ! (outOffset + k)) p of
                   None \<Rightarrow> Inl NotFinite
                 | Some s \<Rightarrow>
                     addWeighted aliased inValues outOffset inOffset w ks
                       (outValues[outOffset + k := s])))
      else Inl AssertionFailed)"

text \<open>\<^verbatim>\<open>elem.element->getID()\<close>: the vertex behind the pointer must exist.\<close>

definition elementID :: "store \<Rightarrow> InterpolationElement \<Rightarrow> nat option" where
  "elementID \<sigma> elem =
     (case element elem of
        VertexPtr mid p \<Rightarrow>
          (if p < length (vertices (\<sigma> mid)) then Some (getID (vertices (\<sigma> mid) ! p))
           else None))"

text \<open>The loop over the elements of one stencil, consistent direction.\<close>

fun mapConsistentElems ::
  "store \<Rightarrow> bool \<Rightarrow> real list \<Rightarrow> nat \<Rightarrow> nat \<Rightarrow> InterpolationElements \<Rightarrow> real list \<Rightarrow>
   failure + real list" where
  "mapConsistentElems \<sigma> aliased inValues dimensions outOffset [] outValues = Inr outValues"
| "mapConsistentElems \<sigma> aliased inValues dimensions outOffset (elem # elems) outValues =
     (case elementID \<sigma> elem of
        None \<Rightarrow> Inl OutOfRange
      | Some ident \<Rightarrow>
          (case addWeighted aliased inValues outOffset (ident * dimensions) (weight elem)
                  [0..<dimensions] outValues of
             Inl f \<Rightarrow> Inl f
           | Inr outValues' \<Rightarrow>
               mapConsistentElems \<sigma> aliased inValues dimensions outOffset elems outValues'))"

text \<open>The loop over the output vertices, from vertex \<open>i\<close> on, with the stencils left.\<close>

fun mapConsistent ::
  "store \<Rightarrow> bool \<Rightarrow> real list \<Rightarrow> nat \<Rightarrow> nat \<Rightarrow> InterpolationElements list \<Rightarrow> real list \<Rightarrow>
   failure + real list" where
  "mapConsistent \<sigma> aliased inValues dimensions i [] outValues = Inr outValues"
| "mapConsistent \<sigma> aliased inValues dimensions i (elems # rest) outValues =
     (case mapConsistentElems \<sigma> aliased inValues dimensions (i * dimensions) elems outValues of
        Inl f \<Rightarrow> Inl f
      | Inr outValues' \<Rightarrow> mapConsistent \<sigma> aliased inValues dimensions (Suc i) rest outValues')"

text \<open>The same two loops, conservative direction.\<close>

fun mapConservativeElems ::
  "store \<Rightarrow> bool \<Rightarrow> real list \<Rightarrow> nat \<Rightarrow> nat \<Rightarrow> InterpolationElements \<Rightarrow> real list \<Rightarrow>
   failure + real list" where
  "mapConservativeElems \<sigma> aliased inValues dimensions inOffset [] outValues = Inr outValues"
| "mapConservativeElems \<sigma> aliased inValues dimensions inOffset (elem # elems) outValues =
     (case elementID \<sigma> elem of
        None \<Rightarrow> Inl OutOfRange
      | Some ident \<Rightarrow>
          (case addWeighted aliased inValues (ident * dimensions) inOffset (weight elem)
                  [0..<dimensions] outValues of
             Inl f \<Rightarrow> Inl f
           | Inr outValues' \<Rightarrow>
               mapConservativeElems \<sigma> aliased inValues dimensions inOffset elems outValues'))"

fun mapConservative ::
  "store \<Rightarrow> bool \<Rightarrow> real list \<Rightarrow> nat \<Rightarrow> nat \<Rightarrow> InterpolationElements list \<Rightarrow> real list \<Rightarrow>
   failure + real list" where
  "mapConservative \<sigma> aliased inValues dimensions i [] outValues = Inr outValues"
| "mapConservative \<sigma> aliased inValues dimensions i (elems # rest) outValues =
     (case mapConservativeElems \<sigma> aliased inValues dimensions (i * dimensions) elems outValues of
        Inl f \<Rightarrow> Inl f
      | Inr outValues' \<Rightarrow> mapConservative \<sigma> aliased inValues dimensions (Suc i) rest outValues')"

text \<open>Writing the values of a data object of a mesh back to the store.\<close>

definition setValues :: "store \<Rightarrow> mesh_id \<Rightarrow> nat \<Rightarrow> Data \<Rightarrow> real list \<Rightarrow> store" where
  "setValues \<sigma> mid dataID d vs =
     \<sigma>(mid := (\<sigma> mid)\<lparr>dataOf := (dataOf (\<sigma> mid))(dataID \<mapsto> d\<lparr>dataValues := vs\<rparr>)\<rparr>)"

text \<open>
  \<^verbatim>\<open>NearestProjectionMapping::map(inputDataID, outputDataID)\<close>. The values of the
  output data are not reset (the assignment is commented out in the source). A data
  identifier the mesh does not know trips the assertion of \<^verbatim>\<open>Mesh::data\<close>.
\<close>

definition mapNP ::
  "store \<Rightarrow> NearestProjectionMapping \<Rightarrow> nat \<Rightarrow> nat \<Rightarrow> failure + store" where
  "mapNP \<sigma> m inputDataID outputDataID =
     (case inputMesh m of
        None \<Rightarrow> Inl NullMesh
      | Some inp \<Rightarrow>
          (case outputMesh m of
             None \<Rightarrow> Inl NullMesh
           | Some out \<Rightarrow>
               (case dataOf (\<sigma> inp) inputDataID of
                  None \<Rightarrow> Inl AssertionFailed
                | Some inData \<Rightarrow>
                    (case dataOf (\<sigma> out) outputDataID of
                       None \<Rightarrow> Inl AssertionFailed
                     | Some outData \<Rightarrow>
                         (let aliased = (inp = out \<and> inputDataID = outputDataID);
                              dimensions = dataDimensions inData
                          in if dimensions \<noteq> dataDimensions outData then Inl AssertionFailed
                             else if getConstraint m = CONSISTENT
                             then (if length (m_weights m) \<noteq> length (vertices (\<sigma> out))
                                   then Inl AssertionFailed
                                   else (case mapConsistent \<sigma> aliased (dataValues inData)
                                                dimensions 0 (m_weights m) (dataValues outData) of
                                           Inl f \<Rightarrow> Inl f
                                         | Inr vs \<Rightarrow> Inr (setValues \<sigma> out outputDataID outData vs)))
                             else (if length (m_weights m) \<noteq> length (vertices (\<sigma> inp))
                                   then Inl AssertionFailed
                                   else (case mapConservative \<sigma> aliased (dataValues inData)
                                                dimensions 0 (m_weights m) (dataValues outData) of
                                           Inl f \<Rightarrow> Inl f
                                         | Inr vs \<Rightarrow>
                                             Inr (setValues \<sigma> out outputDataID outData vs))))))))"

subsection \<open>tagMeshFirstRound and tagMeshSecondRound\<close>

text \<open>
  \<^verbatim>\<open>tagged\<close> is an unordered set of vertex pointers: a list without repetitions, whose
  length is \<^verbatim>\<open>tagged.size()\<close>. One stencil is gathered by the inner loop.
\<close>

fun gatherElems :: "collaborators \<Rightarrow> InterpolationElements \<Rightarrow> vertex_ptr list \<Rightarrow> vertex_ptr list" where
  "gatherElems env [] tagged = tagged"
| "gatherElems env (elem # elems) tagged =
     gatherElems env elems
       (if \<not> equals env (weight elem) 0 then List.insert (element elem) tagged else tagged)"

text \<open>The loop over \<^verbatim>\<open>_weights\<close>, left early once \<^verbatim>\<open>tagged.size() == max_count\<close>.\<close>

fun gatherTagged ::
  "collaborators \<Rightarrow> nat \<Rightarrow> InterpolationElements list \<Rightarrow> vertex_ptr list \<Rightarrow> vertex_ptr list" where
  "gatherTagged env max_count [] tagged = tagged"
| "gatherTagged env max_count (elems # rest) tagged =
     (if length (gatherElems env elems tagged) = max_count then gatherElems env elems tagged
      else gatherTagged env max_count rest (gatherElems env elems tagged))"

definition tag :: "Vertex \<Rightarrow> Vertex" where
  "tag v = v\<lparr>isTagged := True\<rparr>"

text \<open>
  The second loop: the vertex at position \<open>p\<close> of the mesh at address \<open>mid\<close> is tagged
  when its address is in \<^verbatim>\<open>tagged\<close>.
\<close>

fun tagVertices :: "mesh_id \<Rightarrow> vertex_ptr list \<Rightarrow> nat \<Rightarrow> Vertex list \<Rightarrow> Vertex list" where
  "tagVertices mid tagged p [] = []"
| "tagVertices mid tagged p (v # vs) =
     (if VertexPtr mid p \<in> set tagged then tag v else v) # tagVertices mid tagged (Suc p) vs"

text \<open>The mesh to tag: the input mesh for consistent, the output mesh for conservative.\<close>

definition meshToTag :: "NearestProjectionMapping \<Rightarrow> mesh_id \<Rightarrow> mesh_id \<Rightarrow> mesh_id" where
  "meshToTag m inp out = (if getConstraint m = CONSISTENT then inp else out)"

definition tagMeshFirstRound ::
  "collaborators \<Rightarrow> store \<Rightarrow> NearestProjectionMapping \<Rightarrow>
   failure + store \<times> NearestProjectionMapping" where
  "tagMeshFirstRound env \<sigma> m =
     (case inputMesh m of
        None \<Rightarrow> Inl NullMesh
      | Some inp \<Rightarrow>
          (case outputMesh m of
             None \<Rightarrow> Inl NullMesh
           | Some out \<Rightarrow>
               (case computeMapping env \<sigma> m of
                  Inl f \<Rightarrow> Inl f
                | Inr m' \<Rightarrow>
                    (let mid = meshToTag m' inp out;
                         max_count = length (vertices (\<sigma> mid));
                         tagged = gatherTagged env max_count (m_weights m') []
                     in Inr (\<sigma>(mid := (\<sigma> mid)\<lparr>vertices :=
                                  tagVertices mid tagged 0 (vertices (\<sigma> mid))\<rparr>),
                             clear m')))))"

definition tagMeshSecondRound ::
  "store \<Rightarrow> NearestProjectionMapping \<Rightarrow> store \<times> NearestProjectionMapping" where
  "tagMeshSecondRound \<sigma> m = (\<sigma>, m)"

subsection \<open>States, call sequences and predicates on stencil tables\<close>



text \<open>
  The operations a caller may invoke on an instance, and a sequence of calls on a store
  and an instance; a sequence ends at the first call that fails.
\<close>

datatype operation =
  ComputeMapping | Clear | MapData nat nat | TagMeshFirstRound | TagMeshSecondRound

fun call ::
  "collaborators \<Rightarrow> operation \<Rightarrow> store \<times> NearestProjectionMapping \<Rightarrow>
   failure + store \<times> NearestProjectionMapping" where
  "call env ComputeMapping (\<sigma>, m) =
     (case computeMapping env \<sigma> m of Inl f \<Rightarrow> Inl f | Inr m' \<Rightarrow> Inr (\<sigma>, m'))"
| "call env Clear (\<sigma>, m) = Inr (\<sigma>, clear m)"
| "call env (MapData inputDataID outputDataID) (\<sigma>, m) =
     (case mapNP \<sigma> m inputDataID outputDataID of Inl f \<Rightarrow> Inl f | Inr \<sigma>' \<Rightarrow> Inr (\<sigma>', m))"
| "call env TagMeshFirstRound (\<sigma>, m) = tagMeshFirstRound env \<sigma> m"
| "call env TagMeshSecondRound (\<sigma>, m) = Inr (tagMeshSecondRound \<sigma> m)"

fun calls ::
  "collaborators \<Rightarrow> operation list \<Rightarrow> store \<times> NearestProjectionMapping \<Rightarrow>
   failure + store \<times> NearestProjectionMapping" where
  "calls env [] w = Inr w"
| "calls env (op # ops) w =
     (case call env op w of Inl f \<Rightarrow> Inl f | Inr w' \<Rightarrow> calls env ops w')"

text \<open>Whenever the flag is false the table of stencils is empty.\<close>

definition emptyTableWhenEmpty :: "NearestProjectionMapping \<Rightarrow> bool" where
  "emptyTableWhenEmpty m = (m_hasComputedMapping m \<or> m_weights m = [])"

text \<open>
  Every element of the table points to an existing vertex whose identifier is below \<open>n\<close>:
  the offsets \<^verbatim>\<open>getID() * dimensions + dim\<close> then stay inside a field of \<open>n\<close> vertices.
\<close>

definition elementsWithin :: "store \<Rightarrow> nat \<Rightarrow> InterpolationElements list \<Rightarrow> bool" where
  "elementsWithin \<sigma> n table =
     list_all (list_all (\<lambda>elem. case elementID \<sigma> elem of None \<Rightarrow> False | Some ident \<Rightarrow> ident < n)) table"

text \<open>The sum of the weights of a stencil, and tables whose stencils all sum to 1.\<close>

definition sumWeights :: "InterpolationElements \<Rightarrow> real" where
  "sumWeights elems = sum_list (map weight elems)"

definition partitionOfUnity :: "InterpolationElements list \<Rightarrow> bool" where
  "partitionOfUnity table = list_all (\<lambda>elems. sumWeights elems = 1) table"

text \<open>
  A real number that is a finite double: rounding leaves it as it is and it lies below
  the overflow threshold.
\<close>

definition isDouble :: "real \<Rightarrow> bool" where
  "isDouble x = (roundDouble x = x \<and> \<bar>x\<bar> < 2 ^ 1024)"

text \<open>
  What the loops of the consistent direction compute in one component of one output
  vertex when every input value is \<open>c\<close>: starting from \<open>a\<close>, the rounded product
  \<open>weight * c\<close> is added, and the sum rounded, element after element.
\<close>

fun accumulate :: "real \<Rightarrow> real \<Rightarrow> InterpolationElements \<Rightarrow> real option" where
  "accumulate c a [] = Some a"
| "accumulate c a (elem # elems) =
     (case mulDouble (weight elem) c of
        None \<Rightarrow> None
      | Some p \<Rightarrow> (case addDouble a p of None \<Rightarrow> None | Some s \<Rightarrow> accumulate c s elems))"

text \<open>
  No operation of that accumulation rounds: every product \<open>weight * c\<close> and every partial
  sum is a finite double as it stands.
\<close>

fun roundingFree :: "real \<Rightarrow> real \<Rightarrow> InterpolationElements \<Rightarrow> bool" where
  "roundingFree c a [] = True"
| "roundingFree c a (elem # elems) =
     (isDouble (weight elem * c) \<and> isDouble (a + weight elem * c) \<and>
      roundingFree c (a + weight elem * c) elems)"






text \<open>
  The order the specification describes for the sort of the candidates: the distance
  first, the identifier of the primitive second.
\<close>

definition spec_less :: "MatchType \<Rightarrow> MatchType \<Rightarrow> bool" where
  "spec_less a other =
     (distance a < distance other \<or> (distance a = distance other \<and> index a < index other))"

text \<open>
  The index answers a query with positions of existing primitives. In two dimensions the
  triangles are not queried.
\<close>

definition validQueries :: "collaborators \<Rightarrow> int \<Rightarrow> Mesh \<Rightarrow> Vertex \<Rightarrow> bool" where
  "validQueries env d S v =
     ((d = 2 \<or> list_all (\<lambda>k. k < length (triangles S)) (queryTriangles env S (getCoords v) nnearest)) \<and>
      list_all (\<lambda>k. k < length (edges S)) (queryEdges env S (getCoords v) nnearest) \<and>
      list_all (\<lambda>k. k < length (vertices S)) (queryVertices env S (getCoords v) 1))"

text \<open>
  Some candidate of the query on edges (on triangles) has a stencil whose weights are all
  \<open>\<ge> 0\<close>.
\<close>

definition edgeAccepted :: "collaborators \<Rightarrow> mesh_id \<Rightarrow> Mesh \<Rightarrow> Vertex \<Rightarrow> bool" where
  "edgeAccepted env sid S v =
     list_ex (\<lambda>k. list_all (\<lambda>elem. 0 \<le> weight elem)
                   (generateInterpolationElementsEdge env sid S v k))
       (queryEdges env S (getCoords v) nnearest)"

definition triangleAccepted :: "collaborators \<Rightarrow> mesh_id \<Rightarrow> Mesh \<Rightarrow> Vertex \<Rightarrow> bool" where
  "triangleAccepted env sid S v =
     list_ex (\<lambda>k. list_all (\<lambda>elem. 0 \<le> weight elem)
                   (generateInterpolationElementsTriangle env sid S v k))
       (queryTriangles env S (getCoords v) nnearest)"

text \<open>
  Candidate \<open>k\<close> of the candidates \<open>ks\<close> has a stencil with all weights \<open>\<ge> 0\<close>, and no
  candidate that is strictly nearer has one.
\<close>

definition nearestInterior ::
  "(nat \<Rightarrow> real) \<Rightarrow> (nat \<Rightarrow> InterpolationElements) \<Rightarrow> nat list \<Rightarrow> nat \<Rightarrow> bool" where
  "nearestInterior d gen ks k =
     (k \<in> set ks \<and> list_all (\<lambda>elem. 0 \<le> weight elem) (gen k) \<and>
      list_all (\<lambda>j. d j < d k \<longrightarrow> \<not> list_all (\<lambda>elem. 0 \<le> weight elem) (gen j)) ks)"

text \<open>
  The stencil \<open>new\<close> that one pass of the loop body leaves at the position of the origin
  \<open>v\<close>, given the stencil \<open>old\<close> found there: described by the candidates, not by the
  order in which they are visited.
\<close>

definition edgeVertexEntry ::
  "collaborators \<Rightarrow> mesh_id \<Rightarrow> Mesh \<Rightarrow> Vertex \<Rightarrow> InterpolationElements \<Rightarrow> InterpolationElements \<Rightarrow> bool" where
  "edgeVertexEntry env sid S v old new =
     (if edgeAccepted env sid S v
      then list_ex (\<lambda>k. new = generateInterpolationElementsEdge env sid S v k \<and>
                nearestInterior (distanceEdge env S (getCoords v))
                  (generateInterpolationElementsEdge env sid S v)
                  (queryEdges env S (getCoords v) nnearest) k)
             (queryEdges env S (getCoords v) nnearest)
      else if queryVertices env S (getCoords v) 1 = [] then new = old
      else new = generateInterpolationElementsVertex sid (last (queryVertices env S (getCoords v) 1)))"

definition triangleEntry ::
  "collaborators \<Rightarrow> mesh_id \<Rightarrow> Mesh \<Rightarrow> Vertex \<Rightarrow> InterpolationElements \<Rightarrow> InterpolationElements \<Rightarrow> bool" where
  "triangleEntry env sid S v old new =
     (if triangleAccepted env sid S v
      then list_ex (\<lambda>k. new = generateInterpolationElementsTriangle env sid S v k \<and>
                nearestInterior (distanceTriangle env S (getCoords v))
                  (generateInterpolationElementsTriangle env sid S v)
                  (queryTriangles env S (getCoords v) nnearest) k)
             (queryTriangles env S (getCoords v) nnearest)
      else edgeVertexEntry env sid S v old new)"

definition stencilEntry ::
  "collaborators \<Rightarrow> int \<Rightarrow> mesh_id \<Rightarrow> Mesh \<Rightarrow> Vertex \<Rightarrow> InterpolationElements \<Rightarrow> InterpolationElements \<Rightarrow> bool" where
  "stencilEntry env d sid S v old new =
     (if d = 2 then edgeVertexEntry env sid S v old new else triangleEntry env sid S v old new)"

text \<open>
  Modelled from the spec: the answer of the vertex index to \<^verbatim>\<open>nearest(coords, 1)\<close>
  (section 4.2); the index itself is missing from the sources. The answer is empty when
  the mesh has no vertex, and otherwise one position of a vertex at least Euclidean
  distance from the point (compared through the squared distance).
\<close>

definition sqDistance :: "real list \<Rightarrow> real list \<Rightarrow> real" where
  "sqDistance p q = (\<Sum>(a, b)\<leftarrow>zip p q. (a - b)\<^sup>2)"

definition nearestVertexAnswer :: "Mesh \<Rightarrow> real list \<Rightarrow> nat list \<Rightarrow> bool" where
  "nearestVertexAnswer S q ks =
     (case ks of
        [] \<Rightarrow> vertices S = []
      | [u] \<Rightarrow> u < length (vertices S) \<and>
                list_all (\<lambda>x. sqDistance q (getCoords (vertices S ! u)) \<le> sqDistance q (getCoords x))
                  (vertices S)
      | _ \<Rightarrow> False)"

text \<open>
  The invariant of a mesh (every edge and triangle refers to vertices of its own mesh),
  elements that point to a vertex of the mesh at \<open>mid\<close> with \<open>n\<close> vertices, and a vertex
  pointer that some element of the table carries with a weight that
  \<^verbatim>\<open>math::equals\<close> does not identify with 0.
\<close>

definition wellFormed :: "Mesh \<Rightarrow> bool" where
  "wellFormed S =
     (list_all (\<lambda>(a, b). a < length (vertices S) \<and> b < length (vertices S)) (edges S) \<and>
      list_all (\<lambda>(a, b, c). a < length (vertices S) \<and> b < length (vertices S) \<and>
                  c < length (vertices S)) (triangles S))"

definition pointsTo :: "mesh_id \<Rightarrow> nat \<Rightarrow> InterpolationElement \<Rightarrow> bool" where
  "pointsTo mid n elem = (case element elem of VertexPtr a p \<Rightarrow> a = mid \<and> p < n)"

definition pointsInto :: "mesh_id \<Rightarrow> nat \<Rightarrow> InterpolationElements list \<Rightarrow> bool" where
  "pointsInto mid n table = list_all (list_all (pointsTo mid n)) table"

definition referenced :: "collaborators \<Rightarrow> InterpolationElements list \<Rightarrow> vertex_ptr \<Rightarrow> bool" where
  "referenced env table ptr =
     list_ex (list_ex (\<lambda>elem. element elem = ptr \<and> \<not> equals env (weight elem) 0)) table"

subsection \<open>A concrete scenario\<close>

text \<open>
  Scenario C of the specification: mesh A (address 0) has the vertices (0,0) and (1,0)
  and one edge between them, mesh B (address 1) has the single vertex (0.5, 1). The
  collaborators of the scenario return the edges and triangles in container order, the
  vertices by ascending distance, and the midpoint weights for an edge.
\<close>

definition exampleEnv :: collaborators where
  "exampleEnv =
     \<lparr>queryTriangles = (\<lambda>S q k. take k [0..<length (triangles S)]),
      queryEdges = (\<lambda>S q k. take k [0..<length (edges S)]),
      queryVertices = (\<lambda>S q k. take k (sort_key (\<lambda>u. sqDistance q (getCoords (vertices S ! u)))
                                          [0..<length (vertices S)])),
      distanceTriangle = (\<lambda>S q k. 1),
      distanceEdge = (\<lambda>S q k. 1),
      barycentricTriangle = (\<lambda>S v k. (1 / 2, 1 / 4, 1 / 4)),
      barycentricEdge = (\<lambda>S v k. (1 / 2, 1 / 2)),
      equals = (\<lambda>a b. a = b)\<rparr>"

definition meshA :: Mesh where
  "meshA =
     \<lparr>vertices = [\<lparr>getID = 0, getCoords = [0, 0], isTagged = False\<rparr>,
                  \<lparr>getID = 1, getCoords = [1, 0], isTagged = False\<rparr>],
      edges = [(0, 1)], triangles = [],
      dataOf = (\<lambda>i. if i = 0 then Some \<lparr>dataValues = [3, 3], dataDimensions = 1\<rparr>
                    else if i = 2 then Some \<lparr>dataValues = [0, 0], dataDimensions = 1\<rparr>
                    else None)\<rparr>"

definition meshB :: Mesh where
  "meshB =
     \<lparr>vertices = [\<lparr>getID = 0, getCoords = [1 / 2, 1], isTagged = False\<rparr>],
      edges = [], triangles = [],
      dataOf = (\<lambda>i. if i = 1 then Some \<lparr>dataValues = [0], dataDimensions = 1\<rparr>
                    else if i = 3 then Some \<lparr>dataValues = [4], dataDimensions = 1\<rparr>
                    else None)\<rparr>"

definition exampleStore :: store where
  "exampleStore = (\<lambda>mid. if mid = 0 then meshA else meshB)"

definition freshConsistent :: NearestProjectionMapping where
  "freshConsistent = setMeshes 0 1 (newNearestProjectionMapping CONSISTENT 2)"

definition computedConsistent :: NearestProjectionMapping where
  "computedConsistent =
     freshConsistent\<lparr>m_weights := [[\<lparr>element = VertexPtr 0 0, weight = 1 / 2\<rparr>,
                                      \<lparr>element = VertexPtr 0 1, weight = 1 / 2\<rparr>]],
                     m_hasComputedMapping := True\<rparr>"

definition freshConservative :: NearestProjectionMapping where
  "freshConservative = setMeshes 1 0 (newNearestProjectionMapping CONSERVATIVE 2)"

definition computedConservative :: NearestProjectionMapping where
  "computedConservative =
     freshConservative\<lparr>m_weights := [[\<lparr>element = VertexPtr 0 0, weight = 1 / 2\<rparr>,
                                        \<lparr>element = VertexPtr 0 1, weight = 1 / 2\<rparr>]],
                       m_hasComputedMapping := True\<rparr>"

text \<open>
  The same scenario with a mesh without any primitive at address 0, and a consistent
  instance whose output mesh it is.
\<close>

definition emptySearchStore :: store where
  "emptySearchStore = (\<lambda>mid. if mid = 0
      then \<lparr>vertices = [], edges = [], triangles = [],
            dataOf = (\<lambda>i. if i = 0 then Some \<lparr>dataValues = [], dataDimensions = 1\<rparr> else None)\<rparr>
      else meshB)"

definition freshReversed :: NearestProjectionMapping where
  "freshReversed = setMeshes 1 0 (newNearestProjectionMapping CONSISTENT 2)"

text \<open>
  Scenario D of the specification: the search mesh at address 0 has the vertices (0,0)
  and (1,0) and no edge; the mesh at address 1 has the single vertex (0.6, 0).
\<close>

definition noEdgeStore :: store where
  "noEdgeStore = (\<lambda>mid. if mid = 0
      then \<lparr>vertices = [\<lparr>getID = 0, getCoords = [0, 0], isTagged = False\<rparr>,
                         \<lparr>getID = 1, getCoords = [1, 0], isTagged = False\<rparr>],
            edges = [], triangles = [], dataOf = (\<lambda>i. None)\<rparr>
      else \<lparr>vertices = [\<lparr>getID = 0, getCoords = [3 / 5, 0], isTagged = False\<rparr>],
            edges = [], triangles = [], dataOf = (\<lambda>i. None)\<rparr>)"

text \<open>
  A scenario with rounding: the meshes of scenario C, the input field of mesh A constant
  \<open>8106479329266893 / 2^53\<close> (the double nearest to 0.9) and the input field of mesh B
  \<open>8604960194621709 / 2^53\<close> (the double nearest to 0.955342493405199). The stencil of the
  single vertex of mesh B has the weights 7/16 and 9/16 in the consistent instance and
  13/16 and 3/16 in the conservative one; both pairs sum to 1 and are doubles.
\<close>

definition roundingStore :: store where
  "roundingStore = (\<lambda>mid. if mid = 0
      then \<lparr>vertices = [\<lparr>getID = 0, getCoords = [0, 0], isTagged = False\<rparr>,
                         \<lparr>getID = 1, getCoords = [1, 0], isTagged = False\<rparr>],
            edges = [(0, 1)], triangles = [],
            dataOf = (\<lambda>i. if i = 0
                           then Some \<lparr>dataValues = [8106479329266893 / 9007199254740992,
                                                      8106479329266893 / 9007199254740992],
                                      dataDimensions = 1\<rparr>
                           else if i = 2 then Some \<lparr>dataValues = [0, 0], dataDimensions = 1\<rparr>
                           else None)\<rparr>
      else \<lparr>vertices = [\<lparr>getID = 0, getCoords = [1 / 2, 1], isTagged = False\<rparr>],
            edges = [], triangles = [],
            dataOf = (\<lambda>i. if i = 1 then Some \<lparr>dataValues = [0], dataDimensions = 1\<rparr>
                           else if i = 3
                           then Some \<lparr>dataValues = [8604960194621709 / 9007199254740992],
                                      dataDimensions = 1\<rparr>
                           else None)\<rparr>)"

definition roundingConsistent :: NearestProjectionMapping where
  "roundingConsistent =
     freshConsistent\<lparr>m_weights := [[\<lparr>element = VertexPtr 0 0, weight = 7 / 16\<rparr>,
                                      \<lparr>element = VertexPtr 0 1, weight = 9 / 16\<rparr>]],
                     m_hasComputedMapping := True\<rparr>"


text \<open>
  A scenario with two edges: the search mesh at address 0 has the vertices (0,0), (1,0),
  (-2, 2.8), (2, 2.8) and the edges 0 = ((0,0), (1,0)) and 1 = ((-2, 2.8), (2, 2.8)); the
  mesh at address 1 has the single vertex (-0.6, 0.8). Edge 0 is at distance 1 and the
  projection falls outside it (weights 8/5 and -3/5); edge 1 is at distance 2 and the
  projection falls inside (weights 13/20 and 7/20). The index returns the farther edge
  first. The collaborators are tabulated for the one origin of the scenario.
\<close>

definition twoEdgeEnv :: collaborators where
  "twoEdgeEnv =
     exampleEnv\<lparr>queryEdges := (\<lambda>S q k. take k [1, 0]),
                distanceEdge := (\<lambda>S q k. if k = 0 then 1 else 2),
                barycentricEdge := (\<lambda>S v k. if k = 0 then (8 / 5, - (3 / 5)) else (13 / 20, 7 / 20))\<rparr>"

definition twoEdgeStore :: store where
  "twoEdgeStore = (\<lambda>mid. if mid = 0
      then \<lparr>vertices = [\<lparr>getID = 0, getCoords = [0, 0], isTagged = False\<rparr>,
                         \<lparr>getID = 1, getCoords = [1, 0], isTagged = False\<rparr>,
                         \<lparr>getID = 2, getCoords = [- 2, 14 / 5], isTagged = False\<rparr>,
                         \<lparr>getID = 3, getCoords = [2, 14 / 5], isTagged = False\<rparr>],
            edges = [(0, 1), (2, 3)], triangles = [], dataOf = (\<lambda>i. None)\<rparr>
      else \<lparr>vertices = [\<lparr>getID = 0, getCoords = [- (3 / 5), 4 / 5], isTagged = False\<rparr>],
            edges = [], triangles = [], dataOf = (\<lambda>i. None)\<rparr>)"

lemma computeMapping_flag:
  "computeMapping env \<sigma> m = Inr m' \<Longrightarrow> m_hasComputedMapping m'"
  by (auto simp: computeMapping_def Let_def split: option.splits sum.splits)

lemma computeMapping_meshes:
  "computeMapping env \<sigma> m = Inr m' \<Longrightarrow> inputMesh m' = inputMesh m \<and> outputMesh m' = outputMesh m \<and> getConstraint m' = getConstraint m \<and> getDimensions m' = getDimensions m"
  by (auto simp: computeMapping_def Let_def split: option.splits sum.splits)

lemma tagMeshFirstRound_clear:
  "tagMeshFirstRound env \<sigma> m = Inr (\<sigma>', m') \<Longrightarrow> \<exists>m1. computeMapping env \<sigma> m = Inr m1 \<and> m' = clear m1"
  by (auto simp: tagMeshFirstRound_def Let_def split: option.splits sum.splits)

lemma call_emptyTableWhenEmpty:
  "call env op w = Inr w' \<Longrightarrow> emptyTableWhenEmpty (snd w) \<Longrightarrow> emptyTableWhenEmpty (snd w')"
  by (cases op; cases w; cases w')
     (auto simp: emptyTableWhenEmpty_def clear_def tagMeshSecondRound_def
           dest: computeMapping_flag tagMeshFirstRound_clear split: sum.splits)

lemma calls_emptyTableWhenEmpty:
  "calls env ops w = Inr w' \<Longrightarrow> emptyTableWhenEmpty (snd w) \<Longrightarrow> emptyTableWhenEmpty (snd w')"
proof (induction ops arbitrary: w)
  case Nil
  then show ?case by simp
next
  case (Cons op ops)
  then show ?case
    by (auto split: sum.splits dest: call_emptyTableWhenEmpty)
qed

lemma fresh_emptyTableWhenEmpty:
  "emptyTableWhenEmpty (setMeshes inp out (newNearestProjectionMapping c d))"
  by (simp add: emptyTableWhenEmpty_def setMeshes_def newNearestProjectionMapping_def
      setInputRequirement_def setOutputRequirement_def Mapping_def)

lemma setValues_same:
  "dataOf (\<sigma> mid) dataID = Some d \<Longrightarrow> setValues \<sigma> mid dataID d (dataValues d) = \<sigma>"
  by (simp add: setValues_def map_upd_triv)

lemma call_keeps_meshes:
  "call env op w = Inr w' \<Longrightarrow>
     inputMesh (snd w') = inputMesh (snd w) \<and> outputMesh (snd w') = outputMesh (snd w) \<and>
     getConstraint (snd w') = getConstraint (snd w)"
  by (cases op; cases w; cases w')
     (auto simp: clear_def tagMeshSecondRound_def
           dest: computeMapping_meshes dest!: tagMeshFirstRound_clear split: sum.splits)

lemma calls_keeps_meshes:
  "calls env ops w = Inr w' \<Longrightarrow>
     inputMesh (snd w') = inputMesh (snd w) \<and> outputMesh (snd w') = outputMesh (snd w) \<and>
     getConstraint (snd w') = getConstraint (snd w)"
proof (induction ops arbitrary: w)
  case Nil
  then show ?case by simp
next
  case (Cons op ops)
  then show ?case
    by (auto split: sum.splits dest!: call_keeps_meshes)
qed

lemma fresh_meshes:
  "inputMesh (setMeshes inp out (newNearestProjectionMapping c d)) = Some inp \<and>
   outputMesh (setMeshes inp out (newNearestProjectionMapping c d)) = Some out \<and>
   getConstraint (setMeshes inp out (newNearestProjectionMapping c d)) = c"
  by (simp add: setMeshes_def newNearestProjectionMapping_def
      setInputRequirement_def setOutputRequirement_def Mapping_def)

lemmas example_defs = exampleEnv_def meshA_def meshB_def exampleStore_def freshConsistent_def
  computedConsistent_def freshConservative_def computedConservative_def emptySearchStore_def freshReversed_def noEdgeStore_def
  setMeshes_def newNearestProjectionMapping_def setInputRequirement_def
  setOutputRequirement_def Mapping_def

lemma example_computeMapping:
  "computeMapping exampleEnv exampleStore freshConsistent = Inr computedConsistent"
  by (simp add: example_defs computeMapping_def originsOf_def searchSpaceOf_def resize_def
      searchEdgesThenVertices_def collectMatches_def nnearest_def std_sort_def
      generateInterpolationElementsEdge_def allNonNegative_def Let_def)


lemma example_computeMapping_conservative:
  "computeMapping exampleEnv exampleStore freshConservative = Inr computedConservative"
  by (simp add: example_defs computeMapping_def originsOf_def searchSpaceOf_def resize_def
      searchEdgesThenVertices_def collectMatches_def nnearest_def std_sort_def
      generateInterpolationElementsEdge_def allNonNegative_def Let_def)

subsection \<open>What computeMapping leaves in the table\<close>

lemma firstInterior_None_iff:
  "firstInterior gen ms = None \<longleftrightarrow> (\<forall>m\<in>set ms. \<not> allNonNegative (gen (index m)))"
  by (induction ms) auto

lemma firstInterior_Some_sorted:
  assumes "firstInterior gen ms = Some w" and "sorted (map distance ms)"
  shows "\<exists>m\<in>set ms. w = gen (index m) \<and> allNonNegative w \<and>
           (\<forall>x\<in>set ms. distance x < distance m \<longrightarrow> \<not> allNonNegative (gen (index x)))"
  using assms
proof (induction ms)
  case Nil
  then show ?case by simp
next
  case (Cons m ms)
  show ?case
  proof (cases "allNonNegative (gen (index m))")
    case True
    then have "w = gen (index m)" using Cons.prems(1) by simp
    moreover have "\<forall>x\<in>set (m # ms). \<not> distance x < distance m"
      using Cons.prems(2) by auto
    ultimately show ?thesis using True by auto
  next
    case False
    then have "firstInterior gen ms = Some w" using Cons.prems(1) by simp
    moreover have "sorted (map distance ms)" using Cons.prems(2) by simp
    ultimately obtain m' where "m' \<in> set ms" "w = gen (index m')" "allNonNegative w"
      "\<forall>x\<in>set ms. distance x < distance m' \<longrightarrow> \<not> allNonNegative (gen (index x))"
      using Cons.IH by blast
    then show ?thesis using False by auto
  qed
qed

lemma firstInterior_sorted_matches:
  fixes d :: "nat \<Rightarrow> real"
  defines "ms \<equiv> \<lambda>ks. std_sort (map (\<lambda>k. \<lparr>distance = d k, index = k\<rparr>) ks)"
  shows "(firstInterior gen (ms ks) = None \<longleftrightarrow>
           \<not> list_ex (\<lambda>k. list_all (\<lambda>elem. 0 \<le> weight elem) (gen k)) ks)"
    and "firstInterior gen (ms ks) = Some w \<Longrightarrow>
           list_ex (\<lambda>k. w = gen k \<and> nearestInterior d gen ks k) ks"
proof -
  show "(firstInterior gen (ms ks) = None \<longleftrightarrow>
           \<not> list_ex (\<lambda>k. list_all (\<lambda>elem. 0 \<le> weight elem) (gen k)) ks)"
    by (auto simp: ms_def std_sort_def firstInterior_None_iff list_ex_iff allNonNegative_def)
next
  assume a: "firstInterior gen (ms ks) = Some w"
  have "sorted (map distance (ms ks))" by (simp add: ms_def std_sort_def)
  from firstInterior_Some_sorted [OF a this] obtain m where
    m: "m \<in> set (ms ks)" "w = gen (index m)" "allNonNegative w"
      "\<forall>x\<in>set (ms ks). distance x < distance m \<longrightarrow> \<not> allNonNegative (gen (index x))"
    by blast
  from m(1) obtain k where k: "k \<in> set ks" "m = \<lparr>distance = d k, index = k\<rparr>"
    by (auto simp: ms_def std_sort_def)
  have "\<forall>j\<in>set ks. d j < d k \<longrightarrow> \<not> allNonNegative (gen j)"
  proof (intro ballI impI)
    fix j assume "j \<in> set ks" "d j < d k"
    then have "\<lparr>distance = d j, index = j\<rparr> \<in> set (ms ks)" by (auto simp: ms_def std_sort_def)
    with m(4) \<open>d j < d k\<close> k(2) show "\<not> allNonNegative (gen j)" by fastforce
  qed
  then show "list_ex (\<lambda>k. w = gen k \<and> nearestInterior d gen ks k) ks"
    using k m(2,3) by (auto simp: list_ex_iff nearestInterior_def list_all_iff allNonNegative_def)
qed

lemma assignVertexMatches_valid:
  assumes "list_all (\<lambda>k. k < n) ks"
  shows "\<exists>ws'. assignVertexMatches sid n i ks ws = Inr ws' \<and> length ws' = length ws \<and>
           (\<forall>j. j \<noteq> i \<longrightarrow> ws' ! j = ws ! j) \<and>
           (if ks = [] then ws' = ws
            else i < length ws \<longrightarrow> ws' ! i = generateInterpolationElementsVertex sid (last ks))"
  using assms
proof (induction ks arbitrary: ws)
  case Nil
  then show ?case by simp
next
  case (Cons k ks)
  let ?ws1 = "ws[i := generateInterpolationElementsVertex sid k]"
  have "list_all (\<lambda>k. k < n) ks" using Cons.prems by simp
  from Cons.IH [OF this, of ?ws1] obtain ws' where
    "assignVertexMatches sid n i ks ?ws1 = Inr ws'" "length ws' = length ?ws1"
    "\<forall>j. j \<noteq> i \<longrightarrow> ws' ! j = ?ws1 ! j"
    "if ks = [] then ws' = ?ws1
     else i < length ?ws1 \<longrightarrow> ws' ! i = generateInterpolationElementsVertex sid (last ks)"
    by blast
  then show ?case using Cons.prems by (auto split: if_splits)
qed

lemma searchEdgesThenVertices_entry:
  assumes "list_all (\<lambda>k. k < length (edges S)) (queryEdges env S (getCoords v) nnearest)"
    and "list_all (\<lambda>k. k < length (vertices S)) (queryVertices env S (getCoords v) 1)"
    and "i < length ws"
  shows "\<exists>ws'. searchEdgesThenVertices env sid S v i ws = Inr ws' \<and> length ws' = length ws \<and>
           (\<forall>j. j \<noteq> i \<longrightarrow> ws' ! j = ws ! j) \<and> edgeVertexEntry env sid S v (ws ! i) (ws' ! i)"
proof -
  let ?ks = "queryEdges env S (getCoords v) nnearest"
  let ?d = "distanceEdge env S (getCoords v)"
  let ?gen = "generateInterpolationElementsEdge env sid S v"
  let ?ms = "std_sort (map (\<lambda>k. \<lparr>distance = ?d k, index = k\<rparr>) ?ks)"
  have c: "collectMatches ?d (length (edges S)) ?ks = Inr (map (\<lambda>k. \<lparr>distance = ?d k, index = k\<rparr>) ?ks)"
    using assms(1) by (simp add: collectMatches_def)
  show ?thesis
  proof (cases "firstInterior ?gen ?ms")
    case None
    then have na: "\<not> edgeAccepted env sid S v"
      using firstInterior_sorted_matches(1) [of ?gen ?d ?ks] by (simp add: edgeAccepted_def)
    from assignVertexMatches_valid [OF assms(2), of sid i ws] obtain ws' where
      "assignVertexMatches sid (length (vertices S)) i (queryVertices env S (getCoords v) 1) ws = Inr ws'"
      "length ws' = length ws" "\<forall>j. j \<noteq> i \<longrightarrow> ws' ! j = ws ! j"
      "if queryVertices env S (getCoords v) 1 = [] then ws' = ws
       else i < length ws \<longrightarrow> ws' ! i = generateInterpolationElementsVertex sid (last (queryVertices env S (getCoords v) 1))"
      by blast
    then show ?thesis using c None na assms(3)
      by (auto simp: searchEdgesThenVertices_def edgeVertexEntry_def split: if_splits)
  next
    case (Some w)
    then have acc: "edgeAccepted env sid S v"
      using firstInterior_sorted_matches(1) [of ?gen ?d ?ks] by (simp add: edgeAccepted_def)
    from firstInterior_sorted_matches(2) [OF Some]
    have "list_ex (\<lambda>k. w = ?gen k \<and> nearestInterior ?d ?gen ?ks k) ?ks" .
    then show ?thesis using c Some acc assms(3)
      by (simp add: searchEdgesThenVertices_def edgeVertexEntry_def)
  qed
qed

lemma searchTrianglesFirst_entry:
  assumes "list_all (\<lambda>k. k < length (triangles S)) (queryTriangles env S (getCoords v) nnearest)"
    and "list_all (\<lambda>k. k < length (edges S)) (queryEdges env S (getCoords v) nnearest)"
    and "list_all (\<lambda>k. k < length (vertices S)) (queryVertices env S (getCoords v) 1)"
    and "i < length ws"
  shows "\<exists>ws'. searchTrianglesFirst env sid S v i ws = Inr ws' \<and> length ws' = length ws \<and>
           (\<forall>j. j \<noteq> i \<longrightarrow> ws' ! j = ws ! j) \<and> triangleEntry env sid S v (ws ! i) (ws' ! i)"
proof -
  let ?ks = "queryTriangles env S (getCoords v) nnearest"
  let ?d = "distanceTriangle env S (getCoords v)"
  let ?gen = "generateInterpolationElementsTriangle env sid S v"
  let ?ms = "std_sort (map (\<lambda>k. \<lparr>distance = ?d k, index = k\<rparr>) ?ks)"
  have c: "collectMatches ?d (length (triangles S)) ?ks = Inr (map (\<lambda>k. \<lparr>distance = ?d k, index = k\<rparr>) ?ks)"
    using assms(1) by (simp add: collectMatches_def)
  show ?thesis
  proof (cases "firstInterior ?gen ?ms")
    case None
    then have na: "\<not> triangleAccepted env sid S v"
      using firstInterior_sorted_matches(1) [of ?gen ?d ?ks] by (simp add: triangleAccepted_def)
    from searchEdgesThenVertices_entry [OF assms(2,3,4), of sid]
    show ?thesis using c None na
      by (simp add: searchTrianglesFirst_def triangleEntry_def)
  next
    case (Some w)
    then have acc: "triangleAccepted env sid S v"
      using firstInterior_sorted_matches(1) [of ?gen ?d ?ks] by (simp add: triangleAccepted_def)
    from firstInterior_sorted_matches(2) [OF Some]
    have "list_ex (\<lambda>k. w = ?gen k \<and> nearestInterior ?d ?gen ?ks k) ?ks" .
    then show ?thesis using c Some acc assms(4)
      by (simp add: searchTrianglesFirst_def triangleEntry_def)
  qed
qed

lemma forOrigins_entries:
  assumes step: "\<And>v p ws. v \<in> set vs \<Longrightarrow> length ws = n \<Longrightarrow> p < n \<Longrightarrow>
            \<exists>ws'. body v p ws = Inr ws' \<and> length ws' = n \<and>
                  (\<forall>j. j \<noteq> p \<longrightarrow> ws' ! j = ws ! j) \<and> Q v (ws ! p) (ws' ! p)"
    and "length ws = n" and "i + length vs \<le> n"
  shows "\<exists>ws'. forOrigins body i vs ws = Inr ws' \<and> length ws' = n \<and>
           (\<forall>j<length vs. Q (vs ! j) (ws ! (i + j)) (ws' ! (i + j))) \<and>
           (\<forall>j. j < i \<or> i + length vs \<le> j \<longrightarrow> ws' ! j = ws ! j)"
  using assms
proof (induction vs arbitrary: i ws)
  case Nil
  then show ?case by simp
next
  case (Cons v vs)
  have "i < n" using Cons.prems(3) by simp
  with Cons.prems(1) [of v ws i] Cons.prems(2) obtain ws1 where
    b: "body v i ws = Inr ws1" and l1: "length ws1 = n"
    and f1: "\<forall>j. j \<noteq> i \<longrightarrow> ws1 ! j = ws ! j" and q1: "Q v (ws ! i) (ws1 ! i)"
    by auto
  have "\<And>v p ws. v \<in> set vs \<Longrightarrow> length ws = n \<Longrightarrow> p < n \<Longrightarrow>
            \<exists>ws'. body v p ws = Inr ws' \<and> length ws' = n \<and>
                  (\<forall>j. j \<noteq> p \<longrightarrow> ws' ! j = ws ! j) \<and> Q v (ws ! p) (ws' ! p)"
    using Cons.prems(1) by simp
  moreover have "Suc i + length vs \<le> n" using Cons.prems(3) by simp
  ultimately obtain ws' where
    r: "forOrigins body (Suc i) vs ws1 = Inr ws'" and l: "length ws' = n"
    and q: "\<forall>j<length vs. Q (vs ! j) (ws1 ! (Suc i + j)) (ws' ! (Suc i + j))"
    and f: "\<forall>j. j < Suc i \<or> Suc i + length vs \<le> j \<longrightarrow> ws' ! j = ws1 ! j"
    using Cons.IH [of ws1 "Suc i"] l1 by blast
  have "forOrigins body i (v # vs) ws = Inr ws'" using b r by simp
  moreover have "\<forall>j<length (v # vs). Q ((v # vs) ! j) (ws ! (i + j)) (ws' ! (i + j))"
  proof (intro allI impI)
    fix j assume j: "j < length (v # vs)"
    show "Q ((v # vs) ! j) (ws ! (i + j)) (ws' ! (i + j))"
    proof (cases j)
      case 0
      then show ?thesis using q1 f by simp
    next
      case (Suc j')
      then show ?thesis using q f1 j by simp
    qed
  qed
  moreover have "\<forall>j. j < i \<or> i + length (v # vs) \<le> j \<longrightarrow> ws' ! j = ws ! j"
    using f f1 by auto
  ultimately show ?case using l by blast
qed

lemma resize_length: "length (resize n ws) = n"
  by (simp add: resize_def)

lemma resize_nth: "i < n \<Longrightarrow> resize n ws ! i = (if i < length ws then ws ! i else [])"
  by (auto simp: resize_def nth_append)

lemma computeMapping_entries:
  assumes inp: "inputMesh m = Some inp" and out: "outputMesh m = Some out"
    and valid: "\<forall>v\<in>set (vertices (\<sigma> (originsOf m inp out))).
                  validQueries env (getDimensions m) (\<sigma> (searchSpaceOf m inp out)) v"
  shows "\<exists>ws. computeMapping env \<sigma> m = Inr (m\<lparr>m_weights := ws, m_hasComputedMapping := True\<rparr>) \<and>
           length ws = length (vertices (\<sigma> (originsOf m inp out))) \<and>
           (\<forall>i<length (vertices (\<sigma> (originsOf m inp out))).
              stencilEntry env (getDimensions m) (searchSpaceOf m inp out)
                (\<sigma> (searchSpaceOf m inp out)) (vertices (\<sigma> (originsOf m inp out)) ! i)
                (if i < length (m_weights m) then m_weights m ! i else []) (ws ! i))"
proof -
  let ?F = "vertices (\<sigma> (originsOf m inp out))"
  let ?sid = "searchSpaceOf m inp out"
  let ?S = "\<sigma> ?sid"
  let ?body = "if getDimensions m = 2 then searchEdgesThenVertices env ?sid ?S
               else searchTrianglesFirst env ?sid ?S"
  let ?Q = "stencilEntry env (getDimensions m) ?sid ?S"
  let ?ws0 = "resize (length ?F) (m_weights m)"
  have step: "\<And>v p ws. v \<in> set ?F \<Longrightarrow> length ws = length ?F \<Longrightarrow> p < length ?F \<Longrightarrow>
            \<exists>ws'. ?body v p ws = Inr ws' \<and> length ws' = length ?F \<and>
                  (\<forall>j. j \<noteq> p \<longrightarrow> ws' ! j = ws ! j) \<and> ?Q v (ws ! p) (ws' ! p)"
  proof -
    fix v p and ws :: "InterpolationElements list"
    assume v: "v \<in> set ?F" and l: "length ws = length ?F" and p: "p < length ?F"
    have vq: "validQueries env (getDimensions m) ?S v" using valid v by blast
    show "\<exists>ws'. ?body v p ws = Inr ws' \<and> length ws' = length ?F \<and>
                  (\<forall>j. j \<noteq> p \<longrightarrow> ws' ! j = ws ! j) \<and> ?Q v (ws ! p) (ws' ! p)"
    proof (cases "getDimensions m = 2")
      case True
      from vq have "list_all (\<lambda>k. k < length (edges ?S)) (queryEdges env ?S (getCoords v) nnearest)"
        "list_all (\<lambda>k. k < length (vertices ?S)) (queryVertices env ?S (getCoords v) 1)"
        by (simp_all add: validQueries_def)
      from searchEdgesThenVertices_entry [OF this, of p ws ?sid] p l True
      show ?thesis by (simp add: stencilEntry_def)
    next
      case False
      from vq False have "list_all (\<lambda>k. k < length (triangles ?S)) (queryTriangles env ?S (getCoords v) nnearest)"
        "list_all (\<lambda>k. k < length (edges ?S)) (queryEdges env ?S (getCoords v) nnearest)"
        "list_all (\<lambda>k. k < length (vertices ?S)) (queryVertices env ?S (getCoords v) 1)"
        by (simp_all add: validQueries_def)
      from searchTrianglesFirst_entry [OF this, of p ws ?sid] p l False
      show ?thesis by (simp add: stencilEntry_def)
    qed
  qed
  have "length ?ws0 = length ?F" by (simp add: resize_length)
  moreover have "0 + length ?F \<le> length ?F" by simp
  ultimately obtain ws where
    r: "forOrigins ?body 0 ?F ?ws0 = Inr ws" and l: "length ws = length ?F"
    and q: "\<forall>j<length ?F. ?Q (?F ! j) (?ws0 ! (0 + j)) (ws ! (0 + j))"
    using forOrigins_entries [of ?F "length ?F" ?body ?Q ?ws0 0, OF step] by blast
  have "computeMapping env \<sigma> m = Inr (m\<lparr>m_weights := ws, m_hasComputedMapping := True\<rparr>)"
    using inp out r by (simp add: computeMapping_def Let_def)
  moreover have "\<forall>i<length ?F. ?Q (?F ! i) (if i < length (m_weights m) then m_weights m ! i else []) (ws ! i)"
    using q by (simp add: resize_nth)
  ultimately show ?thesis using l by blast
qed

lemma edge_elements_pointsTo:
  assumes "wellFormed S" and "k < length (edges S)"
  shows "list_all (pointsTo sid (length (vertices S))) (generateInterpolationElementsEdge env sid S v k)"
proof -
  obtain a b where ab: "edges S ! k = (a, b)" by (cases "edges S ! k")
  then have "(a, b) \<in> set (edges S)" using assms(2) by (metis nth_mem)
  then have "a < length (vertices S) \<and> b < length (vertices S)"
    using assms(1) by (auto simp: wellFormed_def list_all_iff)
  then show ?thesis using ab
    by (simp add: generateInterpolationElementsEdge_def pointsTo_def split: prod.splits)
qed

lemma triangle_elements_pointsTo:
  assumes "wellFormed S" and "k < length (triangles S)"
  shows "list_all (pointsTo sid (length (vertices S))) (generateInterpolationElementsTriangle env sid S v k)"
proof -
  obtain a b c where abc: "triangles S ! k = (a, b, c)" by (cases "triangles S ! k")
  then have "(a, b, c) \<in> set (triangles S)" using assms(2) by (metis nth_mem)
  then have "a < length (vertices S) \<and> b < length (vertices S) \<and> c < length (vertices S)"
    using assms(1) by (auto simp: wellFormed_def list_all_iff)
  then show ?thesis using abc
    by (simp add: generateInterpolationElementsTriangle_def pointsTo_def split: prod.splits)
qed

lemma edgeVertexEntry_pointsTo:
  assumes wf: "wellFormed S"
    and e: "list_all (\<lambda>k. k < length (edges S)) (queryEdges env S (getCoords v) nnearest)"
    and vq: "list_all (\<lambda>k. k < length (vertices S)) (queryVertices env S (getCoords v) 1)"
    and entry: "edgeVertexEntry env sid S v old new"
    and old: "list_all (pointsTo sid (length (vertices S))) old"
  shows "list_all (pointsTo sid (length (vertices S))) new"
proof (cases "edgeAccepted env sid S v")
  case True
  with entry obtain k where "k \<in> set (queryEdges env S (getCoords v) nnearest)"
    "new = generateInterpolationElementsEdge env sid S v k"
    by (auto simp: edgeVertexEntry_def list_ex_iff)
  moreover from this e have "k < length (edges S)" by (simp add: list_all_iff)
  ultimately show ?thesis using edge_elements_pointsTo [OF wf] by simp
next
  case False
  show ?thesis
  proof (cases "queryVertices env S (getCoords v) 1 = []")
    case True
    then show ?thesis using entry False old by (simp add: edgeVertexEntry_def)
  next
    case nonempty: False
    then have "last (queryVertices env S (getCoords v) 1) < length (vertices S)"
      using vq by (simp add: list_all_iff)
    then show ?thesis using entry False nonempty
      by (simp add: edgeVertexEntry_def generateInterpolationElementsVertex_def pointsTo_def)
  qed
qed

lemma stencilEntry_pointsTo:
  assumes wf: "wellFormed S" and valid: "validQueries env d S v"
    and entry: "stencilEntry env d sid S v old new"
    and old: "list_all (pointsTo sid (length (vertices S))) old"
  shows "list_all (pointsTo sid (length (vertices S))) new"
proof -
  have e: "list_all (\<lambda>k. k < length (edges S)) (queryEdges env S (getCoords v) nnearest)"
    and vq: "list_all (\<lambda>k. k < length (vertices S)) (queryVertices env S (getCoords v) 1)"
    using valid by (simp_all add: validQueries_def)
  show ?thesis
  proof (cases "d = 2 \<or> \<not> triangleAccepted env sid S v")
    case True
    then have "edgeVertexEntry env sid S v old new"
      using entry by (auto simp: stencilEntry_def triangleEntry_def split: if_splits)
    from edgeVertexEntry_pointsTo [OF wf e vq this old] show ?thesis .
  next
    case False
    then have t: "list_all (\<lambda>k. k < length (triangles S)) (queryTriangles env S (getCoords v) nnearest)"
      using valid by (simp add: validQueries_def)
    from False entry obtain k where "k \<in> set (queryTriangles env S (getCoords v) nnearest)"
      "new = generateInterpolationElementsTriangle env sid S v k"
      by (auto simp: stencilEntry_def triangleEntry_def list_ex_iff)
    moreover from this t have "k < length (triangles S)" by (simp add: list_all_iff)
    ultimately show ?thesis using triangle_elements_pointsTo [OF wf] by simp
  qed
qed

lemma computeMapping_pointsInto:
  assumes inp: "inputMesh m = Some inp" and out: "outputMesh m = Some out"
    and valid: "\<forall>v\<in>set (vertices (\<sigma> (originsOf m inp out))).
                  validQueries env (getDimensions m) (\<sigma> (searchSpaceOf m inp out)) v"
    and wf: "wellFormed (\<sigma> (searchSpaceOf m inp out))"
    and old: "pointsInto (searchSpaceOf m inp out)
                (length (vertices (\<sigma> (searchSpaceOf m inp out)))) (m_weights m)"
  shows "\<exists>ws. computeMapping env \<sigma> m = Inr (m\<lparr>m_weights := ws, m_hasComputedMapping := True\<rparr>) \<and>
           pointsInto (searchSpaceOf m inp out)
                (length (vertices (\<sigma> (searchSpaceOf m inp out)))) ws"
proof -
  let ?F = "vertices (\<sigma> (originsOf m inp out))"
  let ?sid = "searchSpaceOf m inp out"
  let ?n = "length (vertices (\<sigma> ?sid))"
  from computeMapping_entries [OF inp out valid] obtain ws where
    r: "computeMapping env \<sigma> m = Inr (m\<lparr>m_weights := ws, m_hasComputedMapping := True\<rparr>)"
    and l: "length ws = length ?F"
    and e: "\<forall>i<length ?F. stencilEntry env (getDimensions m) ?sid (\<sigma> ?sid) (?F ! i)
                (if i < length (m_weights m) then m_weights m ! i else []) (ws ! i)"
    by blast
  have "\<forall>i<length ws. list_all (pointsTo ?sid ?n) (ws ! i)"
  proof (intro allI impI)
    fix i assume i: "i < length ws"
    then have v: "validQueries env (getDimensions m) (\<sigma> ?sid) (?F ! i)"
      using valid l by simp
    have o: "list_all (pointsTo ?sid ?n) (if i < length (m_weights m) then m_weights m ! i else [])"
      using old by (simp add: pointsInto_def list_all_length)
    from e i l have "stencilEntry env (getDimensions m) ?sid (\<sigma> ?sid) (?F ! i)
                (if i < length (m_weights m) then m_weights m ! i else []) (ws ! i)" by simp
    from stencilEntry_pointsTo [OF wf v this o] show "list_all (pointsTo ?sid ?n) (ws ! i)" .
  qed
  then have "pointsInto ?sid ?n ws" by (simp add: pointsInto_def list_all_length)
  with r show ?thesis by blast
qed

lemma gatherElems_set:
  "set (gatherElems env elems tagged) =
     set tagged \<union> {element elem |elem. elem \<in> set elems \<and> \<not> equals env (weight elem) 0}"
  by (induction elems arbitrary: tagged) auto

lemma gatherElems_distinct:
  "distinct tagged \<Longrightarrow> distinct (gatherElems env elems tagged)"
  by (induction elems arbitrary: tagged) auto

lemma gatherTagged_set:
  assumes "finite V" and "card V = max_count"
    and "distinct tagged" and "set tagged \<subseteq> V"
    and "\<forall>elems\<in>set table. \<forall>elem\<in>set elems. element elem \<in> V"
  shows "set (gatherTagged env max_count table tagged) =
           set tagged \<union> {element elem |elem elems. elems \<in> set table \<and> elem \<in> set elems \<and>
                             \<not> equals env (weight elem) 0}"
  using assms(3,4,5)
proof (induction table arbitrary: tagged)
  case Nil
  then show ?case by simp
next
  case (Cons elems table)
  let ?t = "gatherElems env elems tagged"
  have d: "distinct ?t" using Cons.prems(1) by (rule gatherElems_distinct)
  have s: "set ?t = set tagged \<union> {element elem |elem. elem \<in> set elems \<and> \<not> equals env (weight elem) 0}"
    by (rule gatherElems_set)
  have sub: "set ?t \<subseteq> V" using s Cons.prems(2,3) by auto
  have rest: "\<forall>elems\<in>set table. \<forall>elem\<in>set elems. element elem \<in> V" using Cons.prems(3) by simp
  show ?case
  proof (cases "length ?t = max_count")
    case True
    then have "card (set ?t) = card V" using d assms(2) by (simp add: distinct_card)
    then have "set ?t = V" using sub assms(1) by (simp add: card_subset_eq)
    then have "{element elem |elem elems'. elems' \<in> set table \<and> elem \<in> set elems' \<and>
                             \<not> equals env (weight elem) 0} \<subseteq> set ?t"
      using rest by auto
    then show ?thesis using True s by auto
  next
    case False
    then have "set (gatherTagged env max_count (elems # table) tagged) =
        set ?t \<union> {element elem |elem elems'. elems' \<in> set table \<and> elem \<in> set elems' \<and>
                             \<not> equals env (weight elem) 0}"
      using Cons.IH [OF d sub rest] by simp
    then show ?thesis using s by auto
  qed
qed

lemma tagVertices_length: "length (tagVertices mid tagged p vs) = length vs"
  by (induction vs arbitrary: p) auto

lemma tagVertices_nth:
  "j < length vs \<Longrightarrow> tagVertices mid tagged p vs ! j =
     (if VertexPtr mid (p + j) \<in> set tagged then tag (vs ! j) else vs ! j)"
proof (induction vs arbitrary: p j)
  case Nil
  then show ?case by simp
next
  case (Cons v vs)
  then show ?case by (cases j) auto
qed

subsection \<open>Facts of the double arithmetic\<close>

lemma roundDouble_zero: "roundDouble 0 = 0"
  by (simp add: roundDouble_def)

lemma mulDouble_zero: "mulDouble w 0 = Some 0"
  by (simp add: mulDouble_def roundDouble_zero)

lemma addDouble_zero: "addDouble 0 0 = Some 0"
  by (simp add: addDouble_def roundDouble_zero)

lemma mulDouble_exact: "isDouble (a * b) \<Longrightarrow> mulDouble a b = Some (a * b)"
  by (simp add: mulDouble_def isDouble_def)

lemma addDouble_exact: "isDouble (a + b) \<Longrightarrow> addDouble a b = Some (a + b)"
  by (simp add: addDouble_def isDouble_def)

text \<open>Evaluation of the rounding at a numeral, and the roundings of the scenarios.\<close>

lemma exponentUp_numeral:
  "exponentUp (numeral n) a = (if 2 \<le> a then exponentUp (pred_numeral n) (a / 2) + 1 else 0)"
  by (simp add: numeral_eq_Suc)

lemma exponentDown_numeral:
  "exponentDown (numeral n) a = (if a < 1 then exponentDown (pred_numeral n) (2 * a) - 1 else 0)"
  by (simp add: numeral_eq_Suc)

lemmas double_eval = mulDouble_def addDouble_def roundDouble_def exponentOf_def pow2_def
  roundHalfEven_def exponentUp_numeral exponentDown_numeral

lemma rounding_products:
  "mulDouble (7 / 16) (8106479329266893 / 9007199254740992) = Some (7093169413108531 / 18014398509481984)"
  "mulDouble (9 / 16) (8106479329266893 / 9007199254740992) = Some (4559894622712627 / 9007199254740992)"
  "mulDouble (13 / 16) (8604960194621709 / 9007199254740992) = Some (6991530158130139 / 9007199254740992)"
  "mulDouble (3 / 16) (8604960194621709 / 9007199254740992) = Some (3226860072983141 / 18014398509481984)"
  by (simp_all add: double_eval)

lemma rounding_sums:
  "addDouble 0 (7093169413108531 / 18014398509481984) = Some (7093169413108531 / 18014398509481984)"
  "addDouble (7093169413108531 / 18014398509481984) (4559894622712627 / 9007199254740992) =
     Some (2026619832316723 / 2251799813685248)"
  "addDouble 0 (6991530158130139 / 9007199254740992) = Some (6991530158130139 / 9007199254740992)"
  "addDouble 0 (3226860072983141 / 18014398509481984) = Some (3226860072983141 / 18014398509481984)"
  "addDouble (6991530158130139 / 9007199254740992) (3226860072983141 / 18014398509481984) =
     Some (4302480097310855 / 4503599627370496)"
  by (simp_all add: double_eval)

lemma isDouble_examples:
  "isDouble (3 / 2)" "isDouble 3" "isDouble 2" "isDouble 4" "isDouble 0"
  by (simp_all add: isDouble_def double_eval)

text \<open>
  The error of one rounding: at most \<open>2^-53\<close> relative to the value in the normal range,
  at most \<open>2^-1075\<close> in the subnormal range.
\<close>

lemma pow2_pos: "0 < pow2 e"
  by (simp add: pow2_def)

lemma pow2_succ: "pow2 (e + 1) = 2 * pow2 e"
proof (cases "0 \<le> e")
  case True
  then have "nat (e + 1) = Suc (nat e)" by simp
  then show ?thesis using True by (simp add: pow2_def)
next
  case False
  then have "nat (- e) = Suc (nat (- (e + 1)))" by simp
  then show ?thesis using False by (auto simp: pow2_def)
qed

lemma pow2_pred: "pow2 (e - 1) = pow2 e / 2"
  using pow2_succ [of "e - 1"] by simp

lemma pow2_sub: "pow2 (e - int n) = pow2 e / 2 ^ n"
proof (induction n)
  case 0
  then show ?case by simp
next
  case (Suc n)
  have "pow2 (e - int (Suc n)) = pow2 (e - int n - 1)" by (simp add: algebra_simps)
  also have "\<dots> = pow2 (e - int n) / 2" by (rule pow2_pred)
  finally show ?case using Suc by simp
qed

lemma exponentUp_bound: "1 \<le> a \<Longrightarrow> pow2 (exponentUp n a) \<le> a"
proof (induction n arbitrary: a)
  case 0
  then show ?case by (simp add: pow2_def)
next
  case (Suc n)
  show ?case
  proof (cases "2 \<le> a")
    case True
    then have "pow2 (exponentUp n (a / 2)) \<le> a / 2" by (intro Suc.IH) simp
    then show ?thesis using True by (simp add: pow2_succ)
  next
    case False
    then show ?thesis using Suc.prems by (simp add: pow2_def)
  qed
qed

lemma exponentDown_bound: "0 < a \<Longrightarrow> pow2 (exponentDown n a) \<le> max a (1 / 2 ^ n)"
proof (induction n arbitrary: a)
  case 0
  then show ?case by (simp add: pow2_def)
next
  case (Suc n)
  show ?case
  proof (cases "a < 1")
    case True
    have "pow2 (exponentDown n (2 * a)) \<le> max (2 * a) (1 / 2 ^ n)"
      using Suc.prems by (intro Suc.IH) simp
    then have "pow2 (exponentDown n (2 * a)) / 2 \<le> max a (1 / 2 ^ Suc n)"
      by (auto simp: max_def field_simps split: if_splits)
    then show ?thesis using True by (simp add: pow2_pred)
  next
    case False
    then have "1 \<le> max a (1 / 2 ^ Suc n)" by (simp add: le_max_iff_disj)
    then show ?thesis using False by (simp add: pow2_def)
  qed
qed

lemma roundHalfEven_error: "\<bar>of_int (roundHalfEven y) - y\<bar> \<le> 1 / 2"
  unfolding roundHalfEven_def by (auto simp: abs_if) linarith+

lemma roundDouble_error: "\<bar>roundDouble x - x\<bar> \<le> \<bar>x\<bar> / 2 ^ 53 + 1 / 2 ^ 1075"
proof (cases "x = 0")
  case True
  then show ?thesis by (simp add: roundDouble_def)
next
  case False
  let ?a = "\<bar>x\<bar>"
  let ?e = "exponentOf ?a"
  let ?p = "pow2 (?e - 52)"
  let ?n = "roundHalfEven (?a / ?p)"
  have a: "0 < ?a" using False by simp
  have p: "0 < ?p" by (rule pow2_pos)
  have pe: "?p = pow2 ?e / 2 ^ 52" using pow2_sub [of ?e 52] by simp
  have e: "pow2 ?e \<le> max ?a (1 / 2 ^ 1022)"
  proof (cases "1 \<le> ?a")
    case True
    then show ?thesis using exponentUp_bound [of ?a 1024] by (simp add: exponentOf_def)
  next
    case False
    then show ?thesis using exponentDown_bound [OF a, of 1022] by (simp add: exponentOf_def)
  qed
  have "roundDouble x = sgn x * (of_int ?n * ?p)"
    using False by (simp add: roundDouble_def)
  moreover have "x = sgn x * ?a" by (simp add: abs_if sgn_if)
  ultimately have "roundDouble x - x = sgn x * (of_int ?n * ?p - ?a)"
    by (metis right_diff_distrib)
  then have "\<bar>roundDouble x - x\<bar> = \<bar>of_int ?n * ?p - ?a\<bar>"
    using False by (simp add: abs_mult abs_sgn_eq)
  also have "of_int ?n * ?p - ?a = (of_int ?n - ?a / ?p) * ?p"
    using p by (simp add: field_simps)
  also have "\<bar>\<dots>\<bar> = \<bar>of_int ?n - ?a / ?p\<bar> * ?p"
    using p by (simp add: abs_mult)
  also have "\<dots> \<le> 1 / 2 * ?p"
    using roundHalfEven_error [of "?a / ?p"] p by (intro mult_right_mono) simp_all
  also have "\<dots> = pow2 ?e / 2 ^ 53" using pe by simp
  also have "\<dots> \<le> max ?a (1 / 2 ^ 1022) / 2 ^ 53"
    using e by (intro divide_right_mono) simp_all
  also have "\<dots> \<le> ?a / 2 ^ 53 + 1 / 2 ^ 1075"
  proof -
    have "max ?a (1 / 2 ^ 1022) \<le> ?a + 1 / 2 ^ 1022" by simp
    then have "max ?a (1 / 2 ^ 1022) / 2 ^ 53 \<le> (?a + 1 / 2 ^ 1022) / 2 ^ 53"
      by (intro divide_right_mono) simp_all
    also have "\<dots> = ?a / 2 ^ 53 + 1 / (2 ^ 1022 * 2 ^ 53)"
      by (simp add: add_divide_distrib)
    also have "(2::real) ^ 1022 * 2 ^ 53 = 2 ^ 1075"
      by (simp only: power_add [symmetric]) simp
    finally show ?thesis .
  qed
  finally show ?thesis .
qed

subsection \<open>Declared mesh requirements\<close>

text \<open>
  Claim C9. The constructor declares the mesh requirements as a function of the
  constraint alone: a consistent instance requires FULL on the input mesh and VERTEX on
  the output mesh, a conservative instance requires VERTEX on the input mesh and FULL on
  the output mesh, whatever the dimensions.
\<close>

theorem requirements_by_constraint:
  "getInputRequirement (newNearestProjectionMapping CONSISTENT d) = FULL \<and>
   getOutputRequirement (newNearestProjectionMapping CONSISTENT d) = VERTEX \<and>
   getInputRequirement (newNearestProjectionMapping CONSERVATIVE d) = VERTEX \<and>
   getOutputRequirement (newNearestProjectionMapping CONSERVATIVE d) = FULL"
  by (simp add: newNearestProjectionMapping_def setInputRequirement_def
      setOutputRequirement_def Mapping_def)

theorem requirements_by_constraint_witness:
  "getInputRequirement (newNearestProjectionMapping CONSISTENT 2) = FULL \<and>
   getOutputRequirement (newNearestProjectionMapping CONSISTENT 2) = VERTEX \<and>
   getInputRequirement (newNearestProjectionMapping CONSERVATIVE 3) = VERTEX \<and>
   getOutputRequirement (newNearestProjectionMapping CONSERVATIVE 3) = FULL"
  using requirements_by_constraint [of 2] requirements_by_constraint [of 3] by simp

subsection \<open>The state machine of an instance\<close>



subsection \<open>Consistent mapping of a constant field\<close>

lemma setValues_lookup:
  "dataOf (setValues \<sigma> mid dataID d vs mid) dataID = Some (d\<lparr>dataValues := vs\<rparr>)"
  by (simp add: setValues_def)

lemma addWeighted_uniform:
  assumes "\<forall>k\<in>set ks. oOff + k < length out \<and> iOff + k < L" and "distinct ks"
    and "\<forall>k\<in>set ks. out ! (oOff + k) = a"
    and "mulDouble w c = Some p" and "addDouble a p = Some s"
  shows "\<exists>out'. addWeighted False (replicate L c) oOff iOff w ks out = Inr out' \<and>
           length out' = length out \<and>
           (\<forall>j<length out. out' ! j = (if j - oOff \<in> set ks \<and> oOff \<le> j then s else out ! j))"
  using assms(1,2,3)
proof (induction ks arbitrary: out)
  case Nil
  then show ?case by simp
next
  case (Cons k ks)
  let ?out1 = "out[oOff + k := s]"
  have rng: "\<forall>k\<in>set ks. oOff + k < length ?out1 \<and> iOff + k < L"
    using Cons.prems(1) by simp
  have d: "distinct ks" using Cons.prems(2) by simp
  have u: "\<forall>k'\<in>set ks. ?out1 ! (oOff + k') = a"
  proof
    fix k' assume k': "k' \<in> set ks"
    then have "k' \<noteq> k" using Cons.prems(2) by auto
    then have "?out1 ! (oOff + k') = out ! (oOff + k')" by simp
    then show "?out1 ! (oOff + k') = a" using Cons.prems(3) k' by simp
  qed
  from Cons.IH [OF rng d u] obtain out' where
    r: "addWeighted False (replicate L c) oOff iOff w ks ?out1 = Inr out'"
    and l: "length out' = length ?out1"
    and n: "\<forall>j<length ?out1. out' ! j = (if j - oOff \<in> set ks \<and> oOff \<le> j then s else ?out1 ! j)"
    by blast
  have step: "addWeighted False (replicate L c) oOff iOff w (k # ks) out = Inr out'"
    using Cons.prems(1,3) r assms(4,5) by simp
  have "\<forall>j<length out. out' ! j = (if j - oOff \<in> set (k # ks) \<and> oOff \<le> j then s else out ! j)"
  proof (intro allI impI)
    fix j assume j: "j < length out"
    show "out' ! j = (if j - oOff \<in> set (k # ks) \<and> oOff \<le> j then s else out ! j)"
    proof (cases "j = oOff + k")
      case True
      then have "j - oOff \<notin> set ks" using Cons.prems(2) by simp
      then show ?thesis using n j True by simp
    next
      case False
      then have "\<not> (j - oOff = k \<and> oOff \<le> j)" by auto
      then show ?thesis using n j False by auto
    qed
  qed
  with step l show ?case by auto
qed

lemma addWeighted_segment:
  assumes "oOff + dims \<le> length out" and "iOff + dims \<le> L"
    and "\<forall>j. oOff \<le> j \<and> j < oOff + dims \<longrightarrow> out ! j = a"
    and "mulDouble w c = Some p" and "addDouble a p = Some s"
  shows "\<exists>out'. addWeighted False (replicate L c) oOff iOff w [0..<dims] out = Inr out' \<and>
           length out' = length out \<and>
           (\<forall>j<length out. out' ! j = (if oOff \<le> j \<and> j < oOff + dims then s else out ! j))"
proof -
  have 1: "\<forall>k\<in>set [0..<dims]. oOff + k < length out \<and> iOff + k < L"
    using assms(1,2) by auto
  have 2: "\<forall>k\<in>set [0..<dims]. out ! (oOff + k) = a" using assms(3) by simp
  from addWeighted_uniform [OF 1 _ 2 assms(4,5)] obtain out' where
    r: "addWeighted False (replicate L c) oOff iOff w [0..<dims] out = Inr out'"
    and l: "length out' = length out"
    and n: "\<forall>j<length out. out' ! j = (if j - oOff \<in> set [0..<dims] \<and> oOff \<le> j then s else out ! j)"
    by auto
  have "\<forall>j<length out. out' ! j = (if oOff \<le> j \<and> j < oOff + dims then s else out ! j)"
  proof (intro allI impI)
    fix j assume j: "j < length out"
    have "(j - oOff \<in> set [0..<dims] \<and> oOff \<le> j) = (oOff \<le> j \<and> j < oOff + dims)" by auto
    then show "out' ! j = (if oOff \<le> j \<and> j < oOff + dims then s else out ! j)"
      using n j by simp
  qed
  with r l show ?thesis by blast
qed

lemma mapConsistentElems_accumulate:
  assumes "oOff + dims \<le> length out"
    and "list_all (\<lambda>elem. case elementID \<sigma> elem of None \<Rightarrow> False | Some ident \<Rightarrow> ident < n) elems"
    and "\<forall>j. oOff \<le> j \<and> j < oOff + dims \<longrightarrow> out ! j = a"
    and "accumulate c a elems = Some r"
  shows "\<exists>out'. mapConsistentElems \<sigma> False (replicate (n * dims) c) dims oOff elems out = Inr out' \<and>
           length out' = length out \<and>
           (\<forall>j<length out. out' ! j = (if oOff \<le> j \<and> j < oOff + dims then r else out ! j))"
  using assms
proof (induction elems arbitrary: out a)
  case Nil
  then show ?case by auto
next
  case (Cons e elems)
  from Cons.prems(2) obtain ident where id: "elementID \<sigma> e = Some ident" and lt: "ident < n"
    by (auto split: option.splits)
  from Cons.prems(4) obtain p s where p: "mulDouble (weight e) c = Some p"
    and s: "addDouble a p = Some s" and rest: "accumulate c s elems = Some r"
    by (auto split: option.splits)
  have "Suc ident * dims \<le> n * dims" using lt by (intro mult_le_mono1) simp
  then have "ident * dims + dims \<le> n * dims" by simp
  from addWeighted_segment [OF Cons.prems(1) this Cons.prems(3) p s] obtain out1 where
    r1: "addWeighted False (replicate (n * dims) c) oOff (ident * dims) (weight e) [0..<dims] out = Inr out1"
    and l1: "length out1 = length out"
    and n1: "\<forall>j<length out. out1 ! j = (if oOff \<le> j \<and> j < oOff + dims then s else out ! j)"
    by blast
  have b1: "oOff + dims \<le> length out1" using Cons.prems(1) l1 by simp
  have w1: "list_all (\<lambda>elem. case elementID \<sigma> elem of None \<Rightarrow> False | Some ident \<Rightarrow> ident < n) elems"
    using Cons.prems(2) by simp
  have u1: "\<forall>j. oOff \<le> j \<and> j < oOff + dims \<longrightarrow> out1 ! j = s"
    using n1 Cons.prems(1) by auto
  from Cons.IH [OF b1 w1 u1 rest] obtain out' where
    r: "mapConsistentElems \<sigma> False (replicate (n * dims) c) dims oOff elems out1 = Inr out'"
    and l: "length out' = length out1"
    and nn: "\<forall>j<length out1. out' ! j = (if oOff \<le> j \<and> j < oOff + dims then r else out1 ! j)"
    by blast
  have "mapConsistentElems \<sigma> False (replicate (n * dims) c) dims oOff (e # elems) out = Inr out'"
    using id r1 r by simp
  moreover have "\<forall>j<length out. out' ! j = (if oOff \<le> j \<and> j < oOff + dims then r else out ! j)"
    using n1 nn l1 by auto
  ultimately show ?case using l l1 by auto
qed

lemma mapConsistent_accumulate:
  assumes "(i + length table) * dims \<le> length out"
    and "elementsWithin \<sigma> n table"
    and "\<forall>j. i * dims \<le> j \<and> j < (i + length table) * dims \<longrightarrow> out ! j = 0"
    and "\<forall>elems\<in>set table. \<exists>r. accumulate c 0 elems = Some r \<and> P r"
  shows "\<exists>out'. mapConsistent \<sigma> False (replicate (n * dims) c) dims i table out = Inr out' \<and>
           length out' = length out \<and>
           (\<forall>j<length out.
              if i * dims \<le> j \<and> j < (i + length table) * dims then P (out' ! j)
              else out' ! j = out ! j)"
  using assms
proof (induction table arbitrary: i out)
  case Nil
  show ?case by auto
next
  case (Cons elems table)
  have b: "i * dims + dims \<le> length out" using Cons.prems(1) by (simp add: algebra_simps)
  have w: "list_all (\<lambda>elem. case elementID \<sigma> elem of None \<Rightarrow> False | Some ident \<Rightarrow> ident < n) elems"
    using Cons.prems(2) by (simp add: elementsWithin_def)
  have z: "\<forall>j. i * dims \<le> j \<and> j < i * dims + dims \<longrightarrow> out ! j = 0"
    using Cons.prems(3) by (auto simp: algebra_simps)
  from Cons.prems(4) obtain r0 where a: "accumulate c 0 elems = Some r0" and p0: "P r0" by auto
  from mapConsistentElems_accumulate [OF b w z a] obtain out1 where
    r1: "mapConsistentElems \<sigma> False (replicate (n * dims) c) dims (i * dims) elems out = Inr out1"
    and l1: "length out1 = length out"
    and n1: "\<forall>j<length out. out1 ! j = (if i * dims \<le> j \<and> j < i * dims + dims then r0 else out ! j)"
    by blast
  have 1: "(Suc i + length table) * dims \<le> length out1" using Cons.prems(1) l1 by simp
  have 2: "elementsWithin \<sigma> n table" using Cons.prems(2) by (simp add: elementsWithin_def)
  have 3: "\<forall>j. Suc i * dims \<le> j \<and> j < (Suc i + length table) * dims \<longrightarrow> out1 ! j = 0"
  proof (intro allI impI)
    fix j assume j: "Suc i * dims \<le> j \<and> j < (Suc i + length table) * dims"
    then have "j < length out" using Cons.prems(1) by simp
    moreover have "\<not> (i * dims \<le> j \<and> j < i * dims + dims)" using j by simp
    moreover have "out ! j = 0" using Cons.prems(3) j by (simp add: algebra_simps)
    ultimately show "out1 ! j = 0" using n1 by metis
  qed
  have 4: "\<forall>elems\<in>set table. \<exists>r. accumulate c 0 elems = Some r \<and> P r" using Cons.prems(4) by simp
  from Cons.IH [OF 1 2 3 4] obtain out' where
    r: "mapConsistent \<sigma> False (replicate (n * dims) c) dims (Suc i) table out1 = Inr out'"
    and l: "length out' = length out1"
    and nn: "\<forall>j<length out1.
              if Suc i * dims \<le> j \<and> j < (Suc i + length table) * dims then P (out' ! j)
              else out' ! j = out1 ! j"
    by blast
  have "mapConsistent \<sigma> False (replicate (n * dims) c) dims i (elems # table) out = Inr out'"
    using r1 r by simp
  moreover have "\<forall>j<length out.
              if i * dims \<le> j \<and> j < (i + length (elems # table)) * dims then P (out' ! j)
              else out' ! j = out ! j"
  proof (intro allI impI)
    fix j assume j: "j < length out"
    have j1: "j < length out1" using j l1 by simp
    show "if i * dims \<le> j \<and> j < (i + length (elems # table)) * dims then P (out' ! j)
              else out' ! j = out ! j"
    proof (cases "Suc i * dims \<le> j \<and> j < (Suc i + length table) * dims")
      case True
      from nn j1 have "if Suc i * dims \<le> j \<and> j < (Suc i + length table) * dims then P (out' ! j)
              else out' ! j = out1 ! j" by blast
      then have "P (out' ! j)" using True by auto
      moreover have "i * dims \<le> j \<and> j < (i + length (elems # table)) * dims"
        using True by (simp add: algebra_simps)
      ultimately show ?thesis by auto
    next
      case False
      from nn j1 have "if Suc i * dims \<le> j \<and> j < (Suc i + length table) * dims then P (out' ! j)
              else out' ! j = out1 ! j" by blast
      then have e: "out' ! j = out1 ! j" using False by auto
      show ?thesis
      proof (cases "i * dims \<le> j \<and> j < i * dims + dims")
        case True
        from n1 j have "out1 ! j = (if i * dims \<le> j \<and> j < i * dims + dims then r0 else out ! j)"
          by blast
        then have "out1 ! j = r0" using True by simp
        moreover have "i * dims \<le> j \<and> j < (i + length (elems # table)) * dims"
          using True by (simp add: algebra_simps)
        ultimately show ?thesis using e p0 by auto
      next
        case outside: False
        from n1 j have "out1 ! j = (if i * dims \<le> j \<and> j < i * dims + dims then r0 else out ! j)"
          by blast
        then have "out1 ! j = out ! j" using outside by simp
        moreover have "\<not> (i * dims \<le> j \<and> j < (i + length (elems # table)) * dims)"
          using outside False by (auto simp: algebra_simps)
        ultimately show ?thesis using e by auto
      qed
    qed
  qed
  ultimately show ?case using l l1 by auto
qed

lemma roundingFree_accumulate:
  "roundingFree c a elems \<Longrightarrow> accumulate c a elems = Some (a + sumWeights elems * c)"
proof (induction elems arbitrary: a)
  case Nil
  then show ?case by (simp add: sumWeights_def)
next
  case (Cons e elems)
  then have "accumulate c (a + weight e * c) elems = Some (a + weight e * c + sumWeights elems * c)"
    by simp
  then show ?case using Cons.prems
    by (simp add: mulDouble_exact addDouble_exact sumWeights_def algebra_simps)
qed

lemma addWeighted_aliased_zero:
  assumes "\<forall>k\<in>set ks. oOff + k < L \<and> iOff + k < L"
  shows "addWeighted True inV oOff iOff w ks (replicate L 0) = Inr (replicate L 0)"
  using assms
proof (induction ks)
  case Nil
  then show ?case by simp
next
  case (Cons k ks)
  have "(replicate L (0::real))[oOff + k := 0] = replicate L 0"
    by (metis list_update_id nth_replicate Cons.prems list.set_intros(1))
  then show ?case using Cons by (simp add: mulDouble_zero addDouble_zero)
qed

lemma mapConsistentElems_aliased_zero:
  assumes "oOff + dims \<le> n * dims"
    and "list_all (\<lambda>elem. case elementID \<sigma> elem of None \<Rightarrow> False | Some ident \<Rightarrow> ident < n) elems"
  shows "mapConsistentElems \<sigma> True inV dims oOff elems (replicate (n * dims) 0) = Inr (replicate (n * dims) 0)"
  using assms
proof (induction elems)
  case Nil
  then show ?case by simp
next
  case (Cons e elems)
  from Cons.prems(2) obtain ident where id: "elementID \<sigma> e = Some ident" and lt: "ident < n"
    by (auto split: option.splits)
  have "Suc ident * dims \<le> n * dims" using lt by (intro mult_le_mono1) simp
  then have "\<forall>k\<in>set [0..<dims]. oOff + k < n * dims \<and> ident * dims + k < n * dims"
    using Cons.prems(1) by auto
  from addWeighted_aliased_zero [OF this] id Cons show ?case by simp
qed

lemma mapConsistent_aliased_zero:
  assumes "i + length table \<le> n" and "elementsWithin \<sigma> n table"
  shows "mapConsistent \<sigma> True inV dims i table (replicate (n * dims) 0) = Inr (replicate (n * dims) 0)"
  using assms
proof (induction table arbitrary: i)
  case Nil
  then show ?case by simp
next
  case (Cons elems table)
  have "Suc i * dims \<le> n * dims" using Cons.prems(1) by (intro mult_le_mono1) simp
  then have b: "i * dims + dims \<le> n * dims" by simp
  have w: "list_all (\<lambda>elem. case elementID \<sigma> elem of None \<Rightarrow> False | Some ident \<Rightarrow> ident < n) elems"
    using Cons.prems(2) by (simp add: elementsWithin_def)
  have "elementsWithin \<sigma> n table" using Cons.prems(2) by (simp add: elementsWithin_def)
  moreover have "Suc i + length table \<le> n" using Cons.prems(1) by simp
  ultimately show ?case
    using mapConsistentElems_aliased_zero [OF b w] Cons.IH by simp
qed

text \<open>The run of the consistent direction on a constant field and a zeroed output.\<close>

lemma mapNP_consistent_constant:
  assumes cons: "getConstraint m = CONSISTENT"
    and inp: "inputMesh m = Some inp" and out: "outputMesh m = Some out"
    and inD: "dataOf (\<sigma> inp) inputDataID = Some inData"
    and outD: "dataOf (\<sigma> out) outputDataID = Some outData"
    and dims: "dataDimensions outData = dataDimensions inData"
    and populated: "length (m_weights m) = length (vertices (\<sigma> out))"
    and within: "elementsWithin \<sigma> (length (vertices (\<sigma> inp))) (m_weights m)"
    and const: "dataValues inData = replicate (length (vertices (\<sigma> inp)) * dataDimensions inData) c"
    and zeroed: "dataValues outData = replicate (length (vertices (\<sigma> out)) * dataDimensions inData) 0"
    and acc: "\<forall>elems\<in>set (m_weights m). \<exists>r. accumulate c 0 elems = Some r \<and> P r"
    and P0: "c = 0 \<longrightarrow> P 0"
  shows "\<exists>\<sigma>' outData'. mapNP \<sigma> m inputDataID outputDataID = Inr \<sigma>' \<and>
           dataOf (\<sigma>' out) outputDataID = Some outData' \<and>
           length (dataValues outData') = length (vertices (\<sigma> out)) * dataDimensions inData \<and>
           (\<forall>j<length (vertices (\<sigma> out)) * dataDimensions inData. P (dataValues outData' ! j))"
proof -
  let ?d = "dataDimensions inData"
  let ?nI = "length (vertices (\<sigma> inp))"
  let ?nO = "length (vertices (\<sigma> out))"
  let ?al = "inp = out \<and> inputDataID = outputDataID"
  have "\<exists>vs. mapConsistent \<sigma> ?al (dataValues inData) ?d 0 (m_weights m) (dataValues outData) = Inr vs
          \<and> length vs = ?nO * ?d \<and> (\<forall>j<?nO * ?d. P (vs ! j))"
  proof (cases ?al)
    case True
    then have same: "replicate (?nO * ?d) c = replicate (?nO * ?d) (0::real)"
      using inD outD const zeroed by simp
    have "0 + length (m_weights m) \<le> ?nI" using populated True by simp
    from mapConsistent_aliased_zero [OF this within, where inV = "dataValues inData" and dims = ?d]
    have r: "mapConsistent \<sigma> ?al (dataValues inData) ?d 0 (m_weights m) (dataValues outData) =
               Inr (replicate (?nO * ?d) 0)"
      using True zeroed by simp
    have "\<forall>j<?nO * ?d. P (replicate (?nO * ?d) 0 ! j)"
    proof (intro allI impI)
      fix j assume j: "j < ?nO * ?d"
      have "replicate (?nO * ?d) c ! j = replicate (?nO * ?d) (0::real) ! j"
        by (simp only: same)
      then have "c = 0" using j by (simp only: nth_replicate)
      then show "P (replicate (?nO * ?d) 0 ! j)" using P0 j by simp
    qed
    with r show ?thesis by simp
  next
    case False
    have 1: "(0 + length (m_weights m)) * ?d \<le> length (dataValues outData)"
      using populated zeroed by simp
    have 3: "\<forall>j. 0 * ?d \<le> j \<and> j < (0 + length (m_weights m)) * ?d \<longrightarrow> dataValues outData ! j = 0"
      using populated zeroed by simp
    from mapConsistent_accumulate [OF 1 within 3 acc] obtain vs where
      r: "mapConsistent \<sigma> False (replicate (?nI * ?d) c) ?d 0 (m_weights m) (dataValues outData) = Inr vs"
      and l: "length vs = length (dataValues outData)"
      and n: "\<forall>j<length (dataValues outData).
                if 0 * ?d \<le> j \<and> j < (0 + length (m_weights m)) * ?d then P (vs ! j)
                else vs ! j = dataValues outData ! j"
      by blast
    have "\<forall>j<?nO * ?d. P (vs ! j)" using n populated zeroed by simp
    then show ?thesis using r l False const zeroed by auto
  qed
  then obtain vs where
    r: "mapConsistent \<sigma> ?al (dataValues inData) ?d 0 (m_weights m) (dataValues outData) = Inr vs"
    and l: "length vs = ?nO * ?d" and v: "\<forall>j<?nO * ?d. P (vs ! j)" by blast
  have "mapNP \<sigma> m inputDataID outputDataID = Inr (setValues \<sigma> out outputDataID outData vs)"
    using cons inp out inD outD dims populated r by (simp add: mapNP_def Let_def)
  then show ?thesis using l v setValues_lookup by fastforce
qed

lemma sumWeights_nonneg:
  "\<forall>elem\<in>set elems. 0 \<le> weight elem \<Longrightarrow> 0 \<le> sumWeights elems"
  by (induction elems) (simp_all add: sumWeights_def)

lemma sumWeights_Cons: "sumWeights (elem # elems) = weight elem + sumWeights elems"
  by (simp add: sumWeights_def)

lemma accumulate_bound:
  assumes "\<bar>c\<bar> \<le> 100" and "\<forall>elem\<in>set elems. 0 \<le> weight elem"
    and "0 \<le> W" and "W + sumWeights elems \<le> 1"
    and "\<bar>a - c * W\<bar> \<le> E"
    and "E + real (length elems) * d \<le> 1"
    and dd: "d = 202 / 2 ^ 53 + 2 / 2 ^ 1075"
  shows "\<exists>r. accumulate c a elems = Some r \<and>
           \<bar>r - c * (W + sumWeights elems)\<bar> \<le> E + real (length elems) * d"
  using assms(1-6)
proof (induction elems arbitrary: a W E)
  case Nil
  then show ?case by (simp add: sumWeights_def)
next
  case (Cons e elems)
  let ?w = "weight e"
  let ?p = "roundDouble (?w * c)"
  let ?s = "a + ?p"
  let ?r = "roundDouble ?s"
  define e1 :: real where "e1 = 100 / 2 ^ 53 + 1 / 2 ^ 1075"
  define e2 :: real where "e2 = 102 / 2 ^ 53 + 1 / 2 ^ 1075"
  have e12: "e1 + e2 = d" by (simp add: e1_def e2_def dd)
  have small: "e1 \<le> 1" "e2 \<le> 1" by (simp_all add: e1_def e2_def)
  have d0: "0 \<le> d" by (simp add: dd)
  have w0: "0 \<le> ?w" using Cons.prems(2) by simp
  have rest0: "0 \<le> sumWeights elems" using Cons.prems(2) by (intro sumWeights_nonneg) simp
  have w1: "W + ?w \<le> 1" using Cons.prems(4) rest0 by (simp add: sumWeights_Cons)
  then have wle: "?w \<le> 1" using Cons.prems(3) by simp
  have E1: "E \<le> 1"
  proof -
    have "0 \<le> real (length (e # elems)) * d" using d0 by (intro mult_nonneg_nonneg) simp_all
    with Cons.prems(6) show ?thesis by linarith
  qed
  have wc: "\<bar>?w * c\<bar> \<le> 100"
  proof -
    have "\<bar>?w * c\<bar> = ?w * \<bar>c\<bar>" using w0 by (simp add: abs_mult)
    also have "\<dots> \<le> 1 * 100" using wle w0 Cons.prems(1) by (intro mult_mono) simp_all
    finally show ?thesis by simp
  qed
  have Wc: "\<bar>c * (W + ?w)\<bar> \<le> 100"
  proof -
    have "\<bar>c * (W + ?w)\<bar> = \<bar>c\<bar> * (W + ?w)" using w0 Cons.prems(3) by (simp add: abs_mult)
    also have "\<dots> \<le> 100 * 1" using w1 w0 Cons.prems(1,3) by (intro mult_mono) simp_all
    finally show ?thesis by simp
  qed
  have ep: "\<bar>?p - ?w * c\<bar> \<le> e1"
  proof -
    have "\<bar>?p - ?w * c\<bar> \<le> \<bar>?w * c\<bar> / 2 ^ 53 + 1 / 2 ^ 1075" by (rule roundDouble_error)
    also have "\<dots> \<le> 100 / 2 ^ 53 + 1 / 2 ^ 1075"
      using wc by (intro add_right_mono divide_right_mono) simp_all
    finally show ?thesis by (simp only: e1_def)
  qed
  have pb: "\<bar>?p\<bar> \<le> 101" using ep wc small by linarith
  have big: "(205 :: real) < 2 ^ 1024" by simp
  have "\<bar>?p\<bar> < 2 ^ 1024" using pb big by linarith
  then have m: "mulDouble ?w c = Some ?p"
    by (simp add: mulDouble_def)
  have es: "\<bar>?s - c * (W + ?w)\<bar> \<le> E + e1"
  proof -
    have "?s - c * (W + ?w) = (a - c * W) + (?p - ?w * c)" by (simp add: algebra_simps)
    then show ?thesis using Cons.prems(5) ep by linarith
  qed
  have sb: "\<bar>?s\<bar> \<le> 102" using es Wc E1 small by linarith
  have er: "\<bar>?r - ?s\<bar> \<le> e2"
  proof -
    have "\<bar>?r - ?s\<bar> \<le> \<bar>?s\<bar> / 2 ^ 53 + 1 / 2 ^ 1075" by (rule roundDouble_error)
    also have "\<dots> \<le> 102 / 2 ^ 53 + 1 / 2 ^ 1075"
      using sb by (intro add_right_mono divide_right_mono) simp_all
    finally show ?thesis by (simp only: e2_def)
  qed
  have rb: "\<bar>?r\<bar> \<le> 103" using er sb small by linarith
  have "\<bar>?r\<bar> < 2 ^ 1024" using rb big by linarith
  then have ad: "addDouble a ?p = Some ?r"
    by (simp add: addDouble_def)
  have err: "\<bar>?r - c * (W + ?w)\<bar> \<le> E + d"
    using er es e12 by linarith
  have 3: "0 \<le> W + ?w" using w0 Cons.prems(3) by simp
  have 4: "(W + ?w) + sumWeights elems \<le> 1" using Cons.prems(4) by (simp add: sumWeights_Cons)
  have 6: "(E + d) + real (length elems) * d \<le> 1"
    using Cons.prems(6) by (simp add: algebra_simps)
  have 2: "\<forall>elem\<in>set elems. 0 \<le> weight elem" using Cons.prems(2) by simp
  from Cons.IH [OF Cons.prems(1) 2 3 4 err 6] obtain r where
    r: "accumulate c ?r elems = Some r"
    and b: "\<bar>r - c * (W + ?w + sumWeights elems)\<bar> \<le> E + d + real (length elems) * d"
    by blast
  have "accumulate c a (e # elems) = Some r" using m ad r by simp
  moreover have "\<bar>r - c * (W + sumWeights (e # elems))\<bar> \<le>
      E + real (length (e # elems)) * d"
    using b by (simp add: sumWeights_Cons algebra_simps)
  ultimately show ?case by blast
qed

lemma accumulate_tolerance:
  assumes "\<bar>c\<bar> \<le> 100" and "\<forall>elem\<in>set elems. 0 \<le> weight elem"
    and "sumWeights elems = 1" and "length elems \<le> 3"
  shows "\<exists>r. accumulate c 0 elems = Some r \<and> \<bar>r - c\<bar> \<le> 1 / 10 ^ 12"
proof -
  define d :: real where "d = 202 / 2 ^ 53 + 2 / 2 ^ 1075"
  have d0: "0 \<le> d" by (simp add: d_def)
  have n: "real (length elems) * d \<le> 3 * d"
    using assms(4) d0 by (intro mult_right_mono) simp_all
  have t: "3 * d \<le> 1 / 10 ^ 12" by (simp add: d_def)
  have t1: "(1 / 10 ^ 12 :: real) \<le> 1" by simp
  have 6: "0 + real (length elems) * d \<le> 1" using n t t1 by linarith
  have 4: "0 + sumWeights elems \<le> 1" using assms(3) by simp
  have 5: "\<bar>0 - c * 0\<bar> \<le> (0::real)" by simp
  from accumulate_bound [OF assms(1,2) order_refl 4 5 6 d_def] obtain r where
    r: "accumulate c 0 elems = Some r"
    and b: "\<bar>r - c * (0 + sumWeights elems)\<bar> \<le> 0 + real (length elems) * d"
    by blast
  from b assms(3) have "\<bar>r - c\<bar> \<le> real (length elems) * d" by simp
  with n t have "\<bar>r - c\<bar> \<le> 1 / 10 ^ 12" by linarith
  with r show ?thesis by blast
qed

text \<open>
  Claim C1, as stated, fails: the output components equal \<open>c\<close> in exact arithmetic, not
  in double arithmetic. In the scenario with rounding the instance is consistent, its
  table is populated, the weights 7/16 and 9/16 of its stencil sum to 1, the input field
  is constant \<open>c = 8106479329266893 / 2^53\<close> and the output field is zeroed; both products
  are rounded, and \<open>map\<close> writes \<open>2026619832316723 / 2^51\<close>, which is \<open>c - 2^-53\<close>.
\<close>

theorem constant_field_is_rounded:
  "getConstraint roundingConsistent = CONSISTENT \<and>
   length (m_weights roundingConsistent) = length (vertices (roundingStore 1)) \<and>
   partitionOfUnity (m_weights roundingConsistent) \<and>
   dataOf (roundingStore 0) 0 =
     Some \<lparr>dataValues = replicate 2 (8106479329266893 / 9007199254740992), dataDimensions = 1\<rparr> \<and>
   dataOf (roundingStore 1) 1 = Some \<lparr>dataValues = replicate 1 0, dataDimensions = 1\<rparr> \<and>
   mapNP roundingStore roundingConsistent 0 1 =
     Inr (setValues roundingStore 1 1 \<lparr>dataValues = [0], dataDimensions = 1\<rparr>
            [2026619832316723 / 2251799813685248]) \<and>
   (2026619832316723 / 2251799813685248 :: real) \<noteq> 8106479329266893 / 9007199254740992"
  by (simp add: roundingStore_def roundingConsistent_def example_defs partitionOfUnity_def
      sumWeights_def mapNP_def elementID_def rounding_products rounding_sums numeral_2_eq_2)

text \<open>
  Claim C1, amended. For a consistent instance whose table has one stencil per output
  vertex, with elements inside the input field and weights summing to 1, a constant
  input field \<open>c\<close> and a zeroed output field: when no product \<open>weight * c\<close> and no partial
  sum of a stencil needs rounding, \<open>map\<close> returns and every output component equals \<open>c\<close>;
  when \<open>\<bar>c\<bar> \<le> 100\<close> and every stencil has at most three elements (a vertex, an edge or a
  triangle) of weight \<open>\<ge> 0\<close>, \<open>map\<close> returns and every output component is within
  \<open>10^-12\<close> of \<open>c\<close>. This holds also when both fields are one data object.
\<close>

theorem consistent_map_constant_field:
  assumes cons: "getConstraint m = CONSISTENT"
    and inp: "inputMesh m = Some inp" and out: "outputMesh m = Some out"
    and inD: "dataOf (\<sigma> inp) inputDataID = Some inData"
    and outD: "dataOf (\<sigma> out) outputDataID = Some outData"
    and dims: "dataDimensions outData = dataDimensions inData"
    and populated: "length (m_weights m) = length (vertices (\<sigma> out))"
    and within: "elementsWithin \<sigma> (length (vertices (\<sigma> inp))) (m_weights m)"
    and unity: "partitionOfUnity (m_weights m)"
    and const: "dataValues inData = replicate (length (vertices (\<sigma> inp)) * dataDimensions inData) c"
    and zeroed: "dataValues outData = replicate (length (vertices (\<sigma> out)) * dataDimensions inData) 0"
    and finite: "list_all (roundingFree c 0) (m_weights m) \<or>
                 \<bar>c\<bar> \<le> 100 \<and>
                 list_all (\<lambda>elems. length elems \<le> 3 \<and> list_all (\<lambda>elem. 0 \<le> weight elem) elems)
                   (m_weights m)"
  shows "\<exists>\<sigma>' outData'. mapNP \<sigma> m inputDataID outputDataID = Inr \<sigma>' \<and>
           dataOf (\<sigma>' out) outputDataID = Some outData' \<and>
           length (dataValues outData') = length (vertices (\<sigma> out)) * dataDimensions inData \<and>
           (\<forall>j<length (vertices (\<sigma> out)) * dataDimensions inData.
              \<bar>dataValues outData' ! j - c\<bar> \<le> 1 / 10 ^ 12) \<and>
           (list_all (roundingFree c 0) (m_weights m) \<longrightarrow>
              dataValues outData' = replicate (length (vertices (\<sigma> out)) * dataDimensions inData) c)"
proof -
  let ?free = "list_all (roundingFree c 0) (m_weights m)"
  let ?P = "\<lambda>r. \<bar>r - c\<bar> \<le> 1 / 10 ^ 12 \<and> (?free \<longrightarrow> r = c)"
  have acc: "\<forall>elems\<in>set (m_weights m). \<exists>r. accumulate c 0 elems = Some r \<and> ?P r"
  proof
    fix elems assume e: "elems \<in> set (m_weights m)"
    then have u: "sumWeights elems = 1"
      using unity by (simp add: list_all_iff partitionOfUnity_def)
    have exact: "accumulate c 0 elems = Some c" if ?free
    proof -
      from that e have "roundingFree c 0 elems" by (simp add: list_all_iff)
      then show ?thesis using roundingFree_accumulate [of c 0 elems] u by simp
    qed
    show "\<exists>r. accumulate c 0 elems = Some r \<and> ?P r"
    proof (cases ?free)
      case True
      then show ?thesis using exact by simp
    next
      case False
      with finite e have "\<bar>c\<bar> \<le> 100" "length elems \<le> 3" "\<forall>elem\<in>set elems. 0 \<le> weight elem"
        by (auto simp: list_all_iff)
      from accumulate_tolerance [OF this(1,3) u this(2)] False show ?thesis by blast
    qed
  qed
  have "c = 0 \<longrightarrow> ?P 0" by simp
  from mapNP_consistent_constant [OF cons inp out inD outD dims populated within const zeroed, where P = ?P, OF acc this]
  obtain \<sigma>' outData' where r: "mapNP \<sigma> m inputDataID outputDataID = Inr \<sigma>'"
    and d: "dataOf (\<sigma>' out) outputDataID = Some outData'"
    and l: "length (dataValues outData') = length (vertices (\<sigma> out)) * dataDimensions inData"
    and v: "\<forall>j<length (vertices (\<sigma> out)) * dataDimensions inData. ?P (dataValues outData' ! j)"
    by blast
  have "dataValues outData' = replicate (length (vertices (\<sigma> out)) * dataDimensions inData) c"
    if ?free
    using l v that by (intro nth_equalityI) simp_all
  moreover have "\<forall>j<length (vertices (\<sigma> out)) * dataDimensions inData.
              \<bar>dataValues outData' ! j - c\<bar> \<le> 1 / 10 ^ 12"
    using v by blast
  ultimately show ?thesis using r d l by blast
qed

theorem consistent_map_constant_field_witness:
  "(\<exists>\<sigma>' outData'. mapNP exampleStore computedConsistent 0 1 = Inr \<sigma>' \<and>
      dataOf (\<sigma>' 1) 1 = Some outData' \<and> dataValues outData' = [3]) \<and>
   (\<exists>\<sigma>' outData'. mapNP roundingStore roundingConsistent 0 1 = Inr \<sigma>' \<and>
      dataOf (\<sigma>' 1) 1 = Some outData' \<and>
      \<bar>dataValues outData' ! 0 - 8106479329266893 / 9007199254740992\<bar> \<le> 1 / 10 ^ 12)"
proof
  have h1: "getConstraint computedConsistent = CONSISTENT"
    and h2: "inputMesh computedConsistent = Some 0"
    and h3: "outputMesh computedConsistent = Some 1"
    and h4: "dataOf (exampleStore 0) 0 = Some \<lparr>dataValues = [3, 3], dataDimensions = 1\<rparr>"
    and h5: "dataOf (exampleStore 1) 1 = Some \<lparr>dataValues = [0], dataDimensions = 1\<rparr>"
    by (simp_all add: example_defs)
  have h7: "length (m_weights computedConsistent) = length (vertices (exampleStore 1))"
    and h8: "elementsWithin exampleStore (length (vertices (exampleStore 0))) (m_weights computedConsistent)"
    and h9: "partitionOfUnity (m_weights computedConsistent)"
    by (simp_all add: example_defs elementsWithin_def elementID_def partitionOfUnity_def sumWeights_def)
  have h10: "dataValues \<lparr>dataValues = [3, 3], dataDimensions = 1\<rparr> =
      replicate (length (vertices (exampleStore 0)) * dataDimensions \<lparr>dataValues = [3, 3::real], dataDimensions = 1\<rparr>) 3"
    by (simp add: example_defs numeral_2_eq_2)
  have h11: "dataValues \<lparr>dataValues = [0], dataDimensions = 1\<rparr> =
      replicate (length (vertices (exampleStore 1)) * dataDimensions \<lparr>dataValues = [3, 3::real], dataDimensions = 1\<rparr>) 0"
    by (simp add: example_defs)
  have free: "list_all (roundingFree 3 0) (m_weights computedConsistent)"
    using isDouble_examples by (simp add: example_defs)
  then have h12: "list_all (roundingFree 3 0) (m_weights computedConsistent) \<or>
                 \<bar>3::real\<bar> \<le> 100 \<and>
                 list_all (\<lambda>elems. length elems \<le> 3 \<and> list_all (\<lambda>elem. 0 \<le> weight elem) elems)
                   (m_weights computedConsistent)"
    by (rule disjI1)
  have n: "length (vertices (exampleStore 1)) * dataDimensions \<lparr>dataValues = [3, 3::real], dataDimensions = 1\<rparr> = 1"
    by (simp add: example_defs)
  from consistent_map_constant_field [OF h1 h2 h3 h4 h5 _ h7 h8 h9 h10 h11 h12] free
  show "\<exists>\<sigma>' outData'. mapNP exampleStore computedConsistent 0 1 = Inr \<sigma>' \<and>
      dataOf (\<sigma>' 1) 1 = Some outData' \<and> dataValues outData' = [3]"
    unfolding n by auto
next
  let ?c = "8106479329266893 / 9007199254740992 :: real"
  have h1: "getConstraint roundingConsistent = CONSISTENT"
    and h2: "inputMesh roundingConsistent = Some 0"
    and h3: "outputMesh roundingConsistent = Some 1"
    and h4: "dataOf (roundingStore 0) 0 = Some \<lparr>dataValues = [?c, ?c], dataDimensions = 1\<rparr>"
    and h5: "dataOf (roundingStore 1) 1 = Some \<lparr>dataValues = [0], dataDimensions = 1\<rparr>"
    by (simp_all add: roundingStore_def roundingConsistent_def example_defs)
  have h7: "length (m_weights roundingConsistent) = length (vertices (roundingStore 1))"
    and h8: "elementsWithin roundingStore (length (vertices (roundingStore 0))) (m_weights roundingConsistent)"
    and h9: "partitionOfUnity (m_weights roundingConsistent)"
    by (simp_all add: roundingStore_def roundingConsistent_def example_defs elementsWithin_def
        elementID_def partitionOfUnity_def sumWeights_def)
  have h10: "dataValues \<lparr>dataValues = [?c, ?c], dataDimensions = 1\<rparr> =
      replicate (length (vertices (roundingStore 0)) * dataDimensions \<lparr>dataValues = [?c, ?c], dataDimensions = 1\<rparr>) ?c"
    by (simp add: roundingStore_def numeral_2_eq_2)
  have h11: "dataValues \<lparr>dataValues = [0], dataDimensions = 1\<rparr> =
      replicate (length (vertices (roundingStore 1)) * dataDimensions \<lparr>dataValues = [?c, ?c], dataDimensions = 1\<rparr>) 0"
    by (simp add: roundingStore_def)
  have "\<bar>?c\<bar> \<le> 100 \<and>
        list_all (\<lambda>elems. length elems \<le> 3 \<and> list_all (\<lambda>elem. 0 \<le> weight elem) elems)
          (m_weights roundingConsistent)"
    by (simp add: roundingConsistent_def)
  then have h12: "list_all (roundingFree ?c 0) (m_weights roundingConsistent) \<or>
                 \<bar>?c\<bar> \<le> 100 \<and>
                 list_all (\<lambda>elems. length elems \<le> 3 \<and> list_all (\<lambda>elem. 0 \<le> weight elem) elems)
                   (m_weights roundingConsistent)"
    by (rule disjI2)
  have n: "length (vertices (roundingStore 1)) * dataDimensions \<lparr>dataValues = [?c, ?c], dataDimensions = 1\<rparr> = 1"
    by (simp add: roundingStore_def)
  from consistent_map_constant_field [OF h1 h2 h3 h4 h5 _ h7 h8 h9 h10 h11 h12]
  show "\<exists>\<sigma>' outData'. mapNP roundingStore roundingConsistent 0 1 = Inr \<sigma>' \<and>
      dataOf (\<sigma>' 1) 1 = Some outData' \<and>
      \<bar>dataValues outData' ! 0 - ?c\<bar> \<le> 1 / 10 ^ 12"
    unfolding n by auto
qed

subsection \<open>Conservative mapping and the total of the field\<close>














subsection \<open>map on an instance without a computed mapping\<close>

text \<open>
  Claim C5, as stated, fails: \<open>map\<close> never reads \<^verbatim>\<open>_hasComputedMapping\<close>. On a fresh
  consistent instance whose output mesh has no vertex, \<open>map\<close> returns normally although
  \<open>hasComputedMapping\<close> is false.
\<close>

theorem map_without_mapping_succeeds:
  "\<not> hasComputedMapping freshReversed \<and> mapNP emptySearchStore freshReversed 1 0 = Inr emptySearchStore"
  by (simp add: hasComputedMapping_def example_defs mapNP_def setValues_def fun_eq_iff)

text \<open>
  Claim C5, amended. On an instance reached by any sequence of calls from a fresh one, with
  \<open>hasComputedMapping\<close> false (so the table is empty): \<open>map\<close> returns normally, with
  the store and hence the output field unchanged, exactly when both data objects exist
  with equal dimensions and the mesh of the origins has no vertex; otherwise an assertion
  fails. No other outcome exists.
\<close>

theorem map_in_empty_state:
  assumes reach: "calls env ops (\<sigma>0, setMeshes inp out (newNearestProjectionMapping c d)) = Inr (\<sigma>, m)"
    and stale: "\<not> hasComputedMapping m"
  shows "mapNP \<sigma> m inputDataID outputDataID =
           (if (\<exists>inData outData. dataOf (\<sigma> inp) inputDataID = Some inData \<and>
                   dataOf (\<sigma> out) outputDataID = Some outData \<and>
                   dataDimensions inData = dataDimensions outData) \<and>
               vertices (\<sigma> (originsOf m inp out)) = []
            then Inr \<sigma> else Inl AssertionFailed)"
proof -
  have "emptyTableWhenEmpty m"
    using calls_emptyTableWhenEmpty [OF reach] fresh_emptyTableWhenEmpty by simp
  then have w: "m_weights m = []"
    using stale by (simp add: emptyTableWhenEmpty_def hasComputedMapping_def)
  have k: "inputMesh m = Some inp" "outputMesh m = Some out"
    using calls_keeps_meshes [OF reach] fresh_meshes by simp_all
  show ?thesis
  proof (cases "dataOf (\<sigma> inp) inputDataID")
    case None
    then show ?thesis using k by (simp add: mapNP_def)
  next
    case (Some inData)
    note i = Some
    show ?thesis
    proof (cases "dataOf (\<sigma> out) outputDataID")
      case None
      then show ?thesis using k i by (simp add: mapNP_def)
    next
      case (Some outData)
      then show ?thesis using k i w setValues_same [of \<sigma> out outputDataID outData]
        by (auto simp: mapNP_def Let_def originsOf_def)
    qed
  qed
qed

theorem map_in_empty_state_witness:
  "mapNP exampleStore freshConsistent 0 1 = Inl AssertionFailed"
proof -
  have "calls exampleEnv [] (exampleStore, setMeshes 0 1 (newNearestProjectionMapping CONSISTENT 2)) = Inr (exampleStore, freshConsistent)"
    by (simp add: freshConsistent_def)
  from map_in_empty_state [OF this, of 0 1] show ?thesis
    by (simp add: hasComputedMapping_def originsOf_def example_defs)
qed

subsection \<open>The order of the candidates\<close>

text \<open>
  Claim C6, as stated, fails: \<^verbatim>\<open>operator<\<close> has no secondary key. Two candidates
  at distance 1 with the identifiers 0 and 1 are ordered by the order of the specification,
  but neither is less than the other for \<^verbatim>\<open>operator<\<close>, and sorting leaves the
  larger identifier first when the index returned it first.
\<close>

theorem sort_has_no_secondary_key:
  "spec_less \<lparr>distance = 1, index = 0\<rparr> \<lparr>distance = 1, index = 1\<rparr> \<and>
   \<not> less_MatchType \<lparr>distance = 1, index = 0\<rparr> \<lparr>distance = 1, index = 1\<rparr> \<and>
   \<not> less_MatchType \<lparr>distance = 1, index = 1\<rparr> \<lparr>distance = 1, index = 0\<rparr> \<and>
   std_sort [\<lparr>distance = 1, index = 1\<rparr>, \<lparr>distance = 1, index = 0\<rparr>] =
     [\<lparr>distance = 1, index = 1\<rparr>, \<lparr>distance = 1, index = 0\<rparr>]"
  by (simp add: spec_less_def less_MatchType_def std_sort_def)

lemma std_sort_unique:
  assumes "mset ss = mset ms" and "distinct (map distance ms)" and "sorted (map distance ss)"
  shows "std_sort ms = ss"
  unfolding std_sort_def
proof (rule sort_key_inj_key_eq)
  show "mset ms = mset ss" using assms(1) by simp
  show "inj_on distance (set ms)" using assms(2) by (simp add: distinct_map)
  show "sorted (map distance ss)" by (rule assms(3))
qed

text \<open>
  Claim C6, amended. \<^verbatim>\<open>operator<\<close> compares the distance alone: it is irreflexive and
  transitive, and two candidates are unordered exactly when their distances are equal. The
  sort permutes the candidates into ascending distance. When the distances of the
  candidates are pairwise different, every ascending arrangement of them is the sorted
  list, so the first-interior selection does not depend on the order in which the index
  returned them.
\<close>

theorem sort_by_distance_only:
  "(less_MatchType a b \<longleftrightarrow> distance a < distance b) \<and>
   \<not> less_MatchType a a \<and>
   (less_MatchType a b \<and> less_MatchType b c \<longrightarrow> less_MatchType a c) \<and>
   (\<not> less_MatchType a b \<and> \<not> less_MatchType b a \<longleftrightarrow> distance a = distance b) \<and>
   mset (std_sort ms) = mset ms \<and>
   sorted_wrt (\<lambda>x y. \<not> less_MatchType y x) (std_sort ms) \<and>
   (distinct (map distance ms) \<and> mset ss = mset ms \<and> sorted_wrt (\<lambda>x y. \<not> less_MatchType y x) ss \<longrightarrow>
      ss = std_sort ms \<and> firstInterior gen ss = firstInterior gen (std_sort ms))"
proof -
  have s: "\<And>xs. sorted_wrt (\<lambda>x y. \<not> less_MatchType y x) xs \<longleftrightarrow> sorted (map distance xs)"
    by (simp add: less_MatchType_def sorted_map not_less)
  have "sorted (map distance (std_sort ms))" by (simp add: std_sort_def)
  then have 1: "sorted_wrt (\<lambda>x y. \<not> less_MatchType y x) (std_sort ms)" by (simp add: s)
  have 2: "mset (std_sort ms) = mset ms" by (simp add: std_sort_def)
  have 3: "distinct (map distance ms) \<and> mset ss = mset ms \<and> sorted_wrt (\<lambda>x y. \<not> less_MatchType y x) ss \<longrightarrow>
      ss = std_sort ms \<and> firstInterior gen ss = firstInterior gen (std_sort ms)"
    using std_sort_unique [of ss ms] by (auto simp: s)
  have 4: "(less_MatchType a b \<longleftrightarrow> distance a < distance b) \<and> \<not> less_MatchType a a \<and>
   (less_MatchType a b \<and> less_MatchType b c \<longrightarrow> less_MatchType a c) \<and>
   (\<not> less_MatchType a b \<and> \<not> less_MatchType b a \<longleftrightarrow> distance a = distance b)"
    by (auto simp: less_MatchType_def)
  from 1 2 3 4 show ?thesis by blast
qed

theorem sort_by_distance_only_witness:
  "std_sort [\<lparr>distance = 2, index = 0\<rparr>, \<lparr>distance = 1, index = 1\<rparr>] =
     [\<lparr>distance = 1, index = 1\<rparr>, \<lparr>distance = 2, index = 0\<rparr>] \<and>
   \<not> less_MatchType \<lparr>distance = 1, index = 0\<rparr> \<lparr>distance = 1, index = 1\<rparr>"
proof -
  let ?ms = "[\<lparr>distance = 2, index = 0\<rparr>, \<lparr>distance = 1, index = 1\<rparr>]"
  let ?ss = "[\<lparr>distance = 1, index = 1\<rparr>, \<lparr>distance = 2, index = 0\<rparr>]"
  have "distinct (map distance ?ms) \<and> mset ?ss = mset ?ms \<and>
        sorted_wrt (\<lambda>x y. \<not> less_MatchType y x) ?ss"
    by (simp add: less_MatchType_def)
  moreover have "\<not> less_MatchType \<lparr>distance = 1, index = 0\<rparr> \<lparr>distance = 1, index = 1\<rparr>"
    using sort_by_distance_only [of "\<lparr>distance = 1, index = 0\<rparr>" "\<lparr>distance = 1, index = 1\<rparr>"]
    by simp
  ultimately show ?thesis
    using sort_by_distance_only [of _ _ _ ?ms ?ss] by simp
qed

subsection \<open>computeMapping has no failure of its own\<close>

text \<open>
  Claim C4, as stated, fails: \<open>computeMapping\<close> has no EmptySearchSpace error and no path
  back to the Empty state. With a search mesh without vertices, edges and triangles and
  one origin vertex, it returns normally, leaves one empty stencil and sets the flag.
\<close>

theorem computeMapping_on_empty_search_space:
  "vertices (emptySearchStore 0) = [] \<and> edges (emptySearchStore 0) = [] \<and>
   triangles (emptySearchStore 0) = [] \<and> length (vertices (emptySearchStore 1)) = 1 \<and>
   computeMapping exampleEnv emptySearchStore freshConsistent =
     Inr (freshConsistent\<lparr>m_weights := [[]], m_hasComputedMapping := True\<rparr>)"
  by (simp add: example_defs computeMapping_def originsOf_def searchSpaceOf_def resize_def
      searchEdgesThenVertices_def collectMatches_def nnearest_def std_sort_def Let_def)

text \<open>
  Claim C4, amended. Whenever both meshes are set and the index answers with positions of
  existing primitives, \<open>computeMapping\<close> returns normally, whatever the search mesh holds
  (also nothing at all while origins exist): \<open>hasComputedMapping\<close> is true afterwards and
  the table has one entry per origin vertex.
\<close>

theorem computeMapping_has_no_failure:
  assumes inp: "inputMesh m = Some inp" and out: "outputMesh m = Some out"
    and valid: "\<forall>v\<in>set (vertices (\<sigma> (originsOf m inp out))).
                  validQueries env (getDimensions m) (\<sigma> (searchSpaceOf m inp out)) v"
  shows "\<exists>m'. computeMapping env \<sigma> m = Inr m' \<and> hasComputedMapping m' \<and>
           length (m_weights m') = length (vertices (\<sigma> (originsOf m inp out)))"
  using computeMapping_entries [OF inp out valid]
  by (auto simp: hasComputedMapping_def)

theorem computeMapping_has_no_failure_witness:
  "\<exists>m'. computeMapping exampleEnv emptySearchStore freshConsistent = Inr m' \<and>
      hasComputedMapping m' \<and> length (m_weights m') = 1"
proof -
  have h1: "inputMesh freshConsistent = Some 0" and h2: "outputMesh freshConsistent = Some 1"
    by (simp_all add: example_defs)
  have h3: "\<forall>v\<in>set (vertices (emptySearchStore (originsOf freshConsistent 0 1))).
      validQueries exampleEnv (getDimensions freshConsistent)
        (emptySearchStore (searchSpaceOf freshConsistent 0 1)) v"
    by (simp add: example_defs originsOf_def searchSpaceOf_def validQueries_def)
  from computeMapping_has_no_failure [OF h1 h2 h3]
  show ?thesis by (simp add: example_defs originsOf_def)
qed

subsection \<open>Origins for which nothing is found\<close>

text \<open>
  Claim C10. Let both meshes be set, let the index answer with positions of existing
  primitives, and let the table point into the search mesh (as it does when it is empty,
  after construction or \<open>clear\<close>, and after every \<open>computeMapping\<close> on these meshes).
  Then \<open>computeMapping\<close> returns normally, whatever the search mesh holds, and sets
  \<open>hasComputedMapping\<close>. Every origin for which no triangle candidate (in three
  dimensions) and no edge candidate was accepted and for which the vertex query, answered
  as section 4.2 of the specification describes, returned nothing has the empty stencil
  afterwards, and the loops of \<open>map\<close> over the elements of that origin return the output
  values untouched.
\<close>

theorem unmatched_origin_has_empty_stencil:
  assumes inp: "inputMesh m = Some inp" and out: "outputMesh m = Some out"
    and valid: "\<forall>v\<in>set (vertices (\<sigma> (originsOf m inp out))).
                  validQueries env (getDimensions m) (\<sigma> (searchSpaceOf m inp out)) v"
    and table: "pointsInto (searchSpaceOf m inp out)
                  (length (vertices (\<sigma> (searchSpaceOf m inp out)))) (m_weights m)"
  shows "\<exists>m'. computeMapping env \<sigma> m = Inr m' \<and> hasComputedMapping m' \<and>
           (\<forall>i<length (vertices (\<sigma> (originsOf m inp out))).
              (getDimensions m = 2 \<or>
                 \<not> triangleAccepted env (searchSpaceOf m inp out) (\<sigma> (searchSpaceOf m inp out))
                     (vertices (\<sigma> (originsOf m inp out)) ! i)) \<and>
              \<not> edgeAccepted env (searchSpaceOf m inp out) (\<sigma> (searchSpaceOf m inp out))
                     (vertices (\<sigma> (originsOf m inp out)) ! i) \<and>
              queryVertices env (\<sigma> (searchSpaceOf m inp out))
                     (getCoords (vertices (\<sigma> (originsOf m inp out)) ! i)) 1 = [] \<and>
              nearestVertexAnswer (\<sigma> (searchSpaceOf m inp out))
                     (getCoords (vertices (\<sigma> (originsOf m inp out)) ! i))
                     (queryVertices env (\<sigma> (searchSpaceOf m inp out))
                        (getCoords (vertices (\<sigma> (originsOf m inp out)) ! i)) 1) \<longrightarrow>
              m_weights m' ! i = [] \<and>
              (\<forall>aliased inValues dimensions outValues.
                 mapConsistentElems \<sigma> aliased inValues dimensions (i * dimensions)
                   (m_weights m' ! i) outValues = Inr outValues \<and>
                 mapConservativeElems \<sigma> aliased inValues dimensions (i * dimensions)
                   (m_weights m' ! i) outValues = Inr outValues))"
proof -
  from computeMapping_entries [OF inp out valid] obtain ws where
    r: "computeMapping env \<sigma> m = Inr (m\<lparr>m_weights := ws, m_hasComputedMapping := True\<rparr>)"
    and e: "\<forall>i<length (vertices (\<sigma> (originsOf m inp out))).
              stencilEntry env (getDimensions m) (searchSpaceOf m inp out)
                (\<sigma> (searchSpaceOf m inp out)) (vertices (\<sigma> (originsOf m inp out)) ! i)
                (if i < length (m_weights m) then m_weights m ! i else []) (ws ! i)"
    by blast
  let ?m' = "m\<lparr>m_weights := ws, m_hasComputedMapping := True\<rparr>"
  have mw: "m_weights ?m' = ws" by simp
  have "ws ! i = [] \<and>
        (\<forall>aliased inValues dimensions outValues.
           mapConsistentElems \<sigma> aliased inValues dimensions (i * dimensions) (ws ! i) outValues =
             Inr outValues \<and>
           mapConservativeElems \<sigma> aliased inValues dimensions (i * dimensions) (ws ! i) outValues =
             Inr outValues)"
    if i: "i < length (vertices (\<sigma> (originsOf m inp out)))"
      and noTriangle: "getDimensions m = 2 \<or>
                 \<not> triangleAccepted env (searchSpaceOf m inp out) (\<sigma> (searchSpaceOf m inp out))
                     (vertices (\<sigma> (originsOf m inp out)) ! i)"
      and noEdge: "\<not> edgeAccepted env (searchSpaceOf m inp out) (\<sigma> (searchSpaceOf m inp out))
                     (vertices (\<sigma> (originsOf m inp out)) ! i)"
      and noVertex: "queryVertices env (\<sigma> (searchSpaceOf m inp out))
                     (getCoords (vertices (\<sigma> (originsOf m inp out)) ! i)) 1 = []"
      and answer: "nearestVertexAnswer (\<sigma> (searchSpaceOf m inp out))
                     (getCoords (vertices (\<sigma> (originsOf m inp out)) ! i))
                     (queryVertices env (\<sigma> (searchSpaceOf m inp out))
                        (getCoords (vertices (\<sigma> (originsOf m inp out)) ! i)) 1)"
    for i
  proof -
    from e i have "stencilEntry env (getDimensions m) (searchSpaceOf m inp out)
                (\<sigma> (searchSpaceOf m inp out)) (vertices (\<sigma> (originsOf m inp out)) ! i)
                (if i < length (m_weights m) then m_weights m ! i else []) (ws ! i)"
      by blast
    with noTriangle noEdge noVertex
    have keep: "ws ! i = (if i < length (m_weights m) then m_weights m ! i else [])"
      by (auto simp: stencilEntry_def triangleEntry_def edgeVertexEntry_def split: if_splits)
    from answer noVertex have "vertices (\<sigma> (searchSpaceOf m inp out)) = []"
      by (simp add: nearestVertexAnswer_def)
    with table have t: "list_all (list_all (pointsTo (searchSpaceOf m inp out) 0)) (m_weights m)"
      by (simp add: pointsInto_def)
    have "m_weights m ! i = []" if l: "i < length (m_weights m)"
    proof (cases "m_weights m ! i")
      case Nil
      then show ?thesis .
    next
      case (Cons elem rest)
      from t l have "list_all (pointsTo (searchSpaceOf m inp out) 0) (m_weights m ! i)"
        by (simp add: list_all_length)
      with Cons have "pointsTo (searchSpaceOf m inp out) 0 elem" by simp
      then show ?thesis by (simp add: pointsTo_def split: vertex_ptr.splits)
    qed
    with keep have "ws ! i = []" by simp
    then show ?thesis by simp
  qed
  then have "\<forall>i<length (vertices (\<sigma> (originsOf m inp out))).
              (getDimensions m = 2 \<or>
                 \<not> triangleAccepted env (searchSpaceOf m inp out) (\<sigma> (searchSpaceOf m inp out))
                     (vertices (\<sigma> (originsOf m inp out)) ! i)) \<and>
              \<not> edgeAccepted env (searchSpaceOf m inp out) (\<sigma> (searchSpaceOf m inp out))
                     (vertices (\<sigma> (originsOf m inp out)) ! i) \<and>
              queryVertices env (\<sigma> (searchSpaceOf m inp out))
                     (getCoords (vertices (\<sigma> (originsOf m inp out)) ! i)) 1 = [] \<and>
              nearestVertexAnswer (\<sigma> (searchSpaceOf m inp out))
                     (getCoords (vertices (\<sigma> (originsOf m inp out)) ! i))
                     (queryVertices env (\<sigma> (searchSpaceOf m inp out))
                        (getCoords (vertices (\<sigma> (originsOf m inp out)) ! i)) 1) \<longrightarrow>
              m_weights ?m' ! i = [] \<and>
              (\<forall>aliased inValues dimensions outValues.
                 mapConsistentElems \<sigma> aliased inValues dimensions (i * dimensions)
                   (m_weights ?m' ! i) outValues = Inr outValues \<and>
                 mapConservativeElems \<sigma> aliased inValues dimensions (i * dimensions)
                   (m_weights ?m' ! i) outValues = Inr outValues)"
    unfolding mw by blast
  moreover have "hasComputedMapping ?m'" by (simp add: hasComputedMapping_def)
  ultimately show ?thesis using r by blast
qed

theorem unmatched_origin_has_empty_stencil_witness:
  "\<exists>m'. computeMapping exampleEnv emptySearchStore freshConsistent = Inr m' \<and>
      hasComputedMapping m' \<and> m_weights m' ! 0 = [] \<and>
      mapConsistentElems emptySearchStore False [] 1 0 (m_weights m' ! 0) [7] = Inr [7] \<and>
      mapConservativeElems emptySearchStore False [5] 1 0 (m_weights m' ! 0) [] = Inr []"
proof -
  have h1: "inputMesh freshConsistent = Some 0" and h2: "outputMesh freshConsistent = Some 1"
    by (simp_all add: example_defs)
  have s: "searchSpaceOf freshConsistent 0 1 = 0" "originsOf freshConsistent 0 1 = 1"
    by (simp_all add: example_defs searchSpaceOf_def originsOf_def)
  have h3: "\<forall>v\<in>set (vertices (emptySearchStore (originsOf freshConsistent 0 1))).
      validQueries exampleEnv (getDimensions freshConsistent)
        (emptySearchStore (searchSpaceOf freshConsistent 0 1)) v"
    by (simp add: example_defs originsOf_def searchSpaceOf_def validQueries_def)
  have h4: "pointsInto (searchSpaceOf freshConsistent 0 1)
      (length (vertices (emptySearchStore (searchSpaceOf freshConsistent 0 1))))
      (m_weights freshConsistent)"
    by (simp add: example_defs pointsInto_def)
  have c: "(0::nat) < length (vertices (emptySearchStore 1))"
    "getDimensions freshConsistent = 2"
    "\<not> edgeAccepted exampleEnv 0 (emptySearchStore 0) (vertices (emptySearchStore 1) ! 0)"
    "queryVertices exampleEnv (emptySearchStore 0) (getCoords (vertices (emptySearchStore 1) ! 0)) 1 = []"
    "nearestVertexAnswer (emptySearchStore 0) (getCoords (vertices (emptySearchStore 1) ! 0)) []"
    by (simp_all add: example_defs edgeAccepted_def nearestVertexAnswer_def)
  from unmatched_origin_has_empty_stencil [OF h1 h2 h3 h4] obtain m' where
    r: "computeMapping exampleEnv emptySearchStore freshConsistent = Inr m'" "hasComputedMapping m'"
    and a: "\<forall>i<length (vertices (emptySearchStore 1)).
              (getDimensions freshConsistent = 2 \<or>
                 \<not> triangleAccepted exampleEnv 0 (emptySearchStore 0) (vertices (emptySearchStore 1) ! i)) \<and>
              \<not> edgeAccepted exampleEnv 0 (emptySearchStore 0) (vertices (emptySearchStore 1) ! i) \<and>
              queryVertices exampleEnv (emptySearchStore 0) (getCoords (vertices (emptySearchStore 1) ! i)) 1 = [] \<and>
              nearestVertexAnswer (emptySearchStore 0) (getCoords (vertices (emptySearchStore 1) ! i))
                     (queryVertices exampleEnv (emptySearchStore 0) (getCoords (vertices (emptySearchStore 1) ! i)) 1) \<longrightarrow>
              m_weights m' ! i = [] \<and>
              (\<forall>aliased inValues dimensions outValues.
                 mapConsistentElems emptySearchStore aliased inValues dimensions (i * dimensions)
                   (m_weights m' ! i) outValues = Inr outValues \<and>
                 mapConservativeElems emptySearchStore aliased inValues dimensions (i * dimensions)
                   (m_weights m' ! i) outValues = Inr outValues)"
    unfolding s by blast
  from a c have "m_weights m' ! 0 = []" by simp
  with r show ?thesis by simp
qed

subsection \<open>The stencil of an origin in two dimensions\<close>

text \<open>
  Claim C3. In two dimensions, let the index answer the edge queries with positions of
  existing edges and the vertex queries with a nearest vertex, and let the search mesh have
  a vertex. Then \<open>computeMapping\<close> returns, and for every origin vertex \<open>i\<close>: if some edge
  among the \<open>nnearest = 4\<close> candidates has a stencil with all weights \<open>\<ge> 0\<close>, the stored
  stencil is that of such an edge, and every candidate strictly nearer to the origin has
  a weight \<open>< 0\<close> in its stencil; otherwise (also when the search mesh has no edge) the
  stored stencil is the unit stencil \<open>{(u, 1)}\<close> on a vertex \<open>u\<close> of the search mesh nearest
  to the origin.
\<close>

theorem computeMapping_2D_stencil:
  fixes env \<sigma> m inp out i
  defines "F \<equiv> vertices (\<sigma> (originsOf m inp out))"
    and "sid \<equiv> searchSpaceOf m inp out"
  defines "S \<equiv> \<sigma> sid"
  defines "q \<equiv> getCoords (F ! i)"
  defines "cands \<equiv> queryEdges env S q nnearest"
    and "gen \<equiv> generateInterpolationElementsEdge env sid S (F ! i)"
  assumes dim: "getDimensions m = 2"
    and inp: "inputMesh m = Some inp" and out: "outputMesh m = Some out"
    and edgesValid: "\<forall>v\<in>set F. list_all (\<lambda>k. k < length (edges S)) (queryEdges env S (getCoords v) nnearest)"
    and nearest: "\<forall>v\<in>set F. nearestVertexAnswer S (getCoords v) (queryVertices env S (getCoords v) 1)"
    and nonempty: "vertices S \<noteq> []"
    and i: "i < length F"
  shows "\<exists>m'. computeMapping env \<sigma> m = Inr m' \<and>
           (if \<exists>k\<in>set cands. \<forall>elem\<in>set (gen k). 0 \<le> weight elem
            then \<exists>k\<in>set cands. m_weights m' ! i = gen k \<and>
                   (\<forall>elem\<in>set (gen k). 0 \<le> weight elem) \<and>
                   (\<forall>j\<in>set cands. distanceEdge env S q j < distanceEdge env S q k \<longrightarrow>
                                   (\<exists>elem\<in>set (gen j). weight elem < 0))
            else \<exists>u<length (vertices S).
                   (\<forall>x\<in>set (vertices S).
                       sqDistance q (getCoords (vertices S ! u)) \<le> sqDistance q (getCoords x)) \<and>
                   m_weights m' ! i = [\<lparr>element = VertexPtr sid u, weight = 1\<rparr>])"
proof -
  have vq: "\<And>v. v \<in> set F \<Longrightarrow> list_all (\<lambda>k. k < length (vertices S)) (queryVertices env S (getCoords v) 1)"
  proof -
    fix v assume "v \<in> set F"
    then have "nearestVertexAnswer S (getCoords v) (queryVertices env S (getCoords v) 1)"
      using nearest by blast
    then show "list_all (\<lambda>k. k < length (vertices S)) (queryVertices env S (getCoords v) 1)"
      by (auto simp: nearestVertexAnswer_def split: list.splits)
  qed
  have valid: "\<forall>v\<in>set (vertices (\<sigma> (originsOf m inp out))).
                  validQueries env (getDimensions m) (\<sigma> (searchSpaceOf m inp out)) v"
    using dim edgesValid vq by (simp add: validQueries_def F_def S_def sid_def)
  from computeMapping_entries [OF inp out valid] obtain ws where
    r: "computeMapping env \<sigma> m = Inr (m\<lparr>m_weights := ws, m_hasComputedMapping := True\<rparr>)"
    and e: "stencilEntry env (getDimensions m) sid S (F ! i)
                (if i < length (m_weights m) then m_weights m ! i else []) (ws ! i)"
    using i by (auto simp: F_def S_def sid_def)
  from e dim have ev: "edgeVertexEntry env sid S (F ! i)
      (if i < length (m_weights m) then m_weights m ! i else []) (ws ! i)"
    by (simp add: stencilEntry_def)
  have "if \<exists>k\<in>set cands. \<forall>elem\<in>set (gen k). 0 \<le> weight elem
            then \<exists>k\<in>set cands. ws ! i = gen k \<and>
                   (\<forall>elem\<in>set (gen k). 0 \<le> weight elem) \<and>
                   (\<forall>j\<in>set cands. distanceEdge env S q j < distanceEdge env S q k \<longrightarrow>
                                   (\<exists>elem\<in>set (gen j). weight elem < 0))
            else \<exists>u<length (vertices S).
                   (\<forall>x\<in>set (vertices S).
                       sqDistance q (getCoords (vertices S ! u)) \<le> sqDistance q (getCoords x)) \<and>
                   ws ! i = [\<lparr>element = VertexPtr sid u, weight = 1\<rparr>]"
  proof (cases "\<exists>k\<in>set cands. \<forall>elem\<in>set (gen k). 0 \<le> weight elem")
    case True
    then have "edgeAccepted env sid S (F ! i)"
      by (simp add: edgeAccepted_def list_ex_iff list_all_iff cands_def gen_def q_def)
    with ev have "list_ex (\<lambda>k. ws ! i = gen k \<and>
                nearestInterior (distanceEdge env S q) gen cands k) cands"
      by (simp add: edgeVertexEntry_def cands_def gen_def q_def)
    then obtain k where k: "k \<in> set cands" "ws ! i = gen k"
      "nearestInterior (distanceEdge env S q) gen cands k"
      by (auto simp: list_ex_iff)
    from k(3) have a: "\<forall>elem\<in>set (gen k). 0 \<le> weight elem"
      and b: "\<forall>j\<in>set cands. distanceEdge env S q j < distanceEdge env S q k \<longrightarrow>
                 (\<exists>elem\<in>set (gen j). weight elem < 0)"
      by (auto simp: nearestInterior_def list_all_iff not_le)
    from k(1,2) a b True show ?thesis by auto
  next
    case False
    then have na: "\<not> edgeAccepted env sid S (F ! i)"
      by (simp add: edgeAccepted_def list_ex_iff list_all_iff cands_def gen_def q_def)
    have "F ! i \<in> set F" using i by simp
    then have nv: "nearestVertexAnswer S q (queryVertices env S q 1)"
      using nearest by (simp add: q_def)
    with nonempty obtain u where u: "queryVertices env S q 1 = [u]" "u < length (vertices S)"
      "list_all (\<lambda>x. sqDistance q (getCoords (vertices S ! u)) \<le> sqDistance q (getCoords x)) (vertices S)"
      by (auto simp: nearestVertexAnswer_def split: list.splits)
    from ev na u(1) have "ws ! i = generateInterpolationElementsVertex sid u"
      by (simp add: edgeVertexEntry_def q_def)
    then show ?thesis using False u(2,3)
      by (auto simp: generateInterpolationElementsVertex_def list_all_iff)
  qed
  then show ?thesis using r by auto
qed

theorem computeMapping_2D_stencil_witness:
  "(\<exists>m'. computeMapping twoEdgeEnv twoEdgeStore freshConsistent = Inr m' \<and>
      m_weights m' ! 0 = [\<lparr>element = VertexPtr 0 2, weight = 13 / 20\<rparr>,
                          \<lparr>element = VertexPtr 0 3, weight = 7 / 20\<rparr>]) \<and>
   (\<exists>m'. computeMapping exampleEnv noEdgeStore freshConsistent = Inr m' \<and>
      m_weights m' ! 0 = [\<lparr>element = VertexPtr 0 1, weight = 1\<rparr>])"
proof
  have h1: "getDimensions freshConsistent = 2"
    and h2: "inputMesh freshConsistent = Some 0" and h3: "outputMesh freshConsistent = Some 1"
    by (simp_all add: example_defs)
  have s: "searchSpaceOf freshConsistent 0 1 = 0" "originsOf freshConsistent 0 1 = 1"
    by (simp_all add: example_defs searchSpaceOf_def originsOf_def)
  have c: "queryEdges twoEdgeEnv (twoEdgeStore 0) (getCoords (vertices (twoEdgeStore 1) ! 0)) nnearest = [1, 0]"
    by (simp add: example_defs twoEdgeEnv_def twoEdgeStore_def nnearest_def)
  have g0: "generateInterpolationElementsEdge twoEdgeEnv 0 (twoEdgeStore 0) (vertices (twoEdgeStore 1) ! 0) 0 =
      [\<lparr>element = VertexPtr 0 0, weight = 8 / 5\<rparr>, \<lparr>element = VertexPtr 0 1, weight = - (3 / 5)\<rparr>]"
    and g1: "generateInterpolationElementsEdge twoEdgeEnv 0 (twoEdgeStore 0) (vertices (twoEdgeStore 1) ! 0) 1 =
      [\<lparr>element = VertexPtr 0 2, weight = 13 / 20\<rparr>, \<lparr>element = VertexPtr 0 3, weight = 7 / 20\<rparr>]"
    by (simp_all add: example_defs twoEdgeEnv_def twoEdgeStore_def generateInterpolationElementsEdge_def)
  have qv: "queryVertices twoEdgeEnv (twoEdgeStore 0) [- (3 / 5), 4 / 5] 1 = [0]"
    by (simp add: example_defs twoEdgeEnv_def twoEdgeStore_def sqDistance_def power2_eq_square upt_rec [of 0] upt_rec [of 1] upt_rec [of 2] upt_rec [of 3])
  have h4: "\<forall>v\<in>set (vertices (twoEdgeStore (originsOf freshConsistent 0 1))).
      list_all (\<lambda>k. k < length (edges (twoEdgeStore (searchSpaceOf freshConsistent 0 1))))
        (queryEdges twoEdgeEnv (twoEdgeStore (searchSpaceOf freshConsistent 0 1)) (getCoords v) nnearest)"
    unfolding s by (simp add: example_defs twoEdgeEnv_def twoEdgeStore_def nnearest_def)
  have h5: "\<forall>v\<in>set (vertices (twoEdgeStore (originsOf freshConsistent 0 1))).
      nearestVertexAnswer (twoEdgeStore (searchSpaceOf freshConsistent 0 1)) (getCoords v)
        (queryVertices twoEdgeEnv (twoEdgeStore (searchSpaceOf freshConsistent 0 1)) (getCoords v) 1)"
    unfolding s using qv
    by (simp add: twoEdgeStore_def nearestVertexAnswer_def sqDistance_def power2_eq_square)
  have h6: "vertices (twoEdgeStore (searchSpaceOf freshConsistent 0 1)) \<noteq> []"
    unfolding s by (simp add: twoEdgeStore_def)
  have h7: "0 < length (vertices (twoEdgeStore (originsOf freshConsistent 0 1)))"
    unfolding s by (simp add: twoEdgeStore_def)
  let ?G = "generateInterpolationElementsEdge twoEdgeEnv 0 (twoEdgeStore 0)
              (vertices (twoEdgeStore 1) ! 0)"
  from computeMapping_2D_stencil [OF h1 h2 h3 h4 h5 h6 h7] obtain m' where
    r: "computeMapping twoEdgeEnv twoEdgeStore freshConsistent = Inr m'"
    and b: "(\<exists>k\<in>set [1, 0]. \<forall>elem\<in>set (?G k). 0 \<le> weight elem) \<Longrightarrow>
            \<exists>k\<in>set [1, 0]. m_weights m' ! 0 = ?G k \<and> (\<forall>elem\<in>set (?G k). 0 \<le> weight elem)"
    unfolding s c by meson
  have "\<forall>elem\<in>set (?G 1). 0 \<le> weight elem"
    unfolding g1 by simp
  then have "\<exists>k\<in>set [1, 0]. \<forall>elem\<in>set (?G k). 0 \<le> weight elem"
    by (rule bexI) simp
  from b [OF this] obtain k where k: "k \<in> set [1, 0]" "m_weights m' ! 0 = ?G k"
    "\<forall>elem\<in>set (?G k). 0 \<le> weight elem"
    by blast
  have "k \<noteq> 0"
  proof
    assume "k = 0"
    with k(3) have "\<forall>elem\<in>set (?G 0). 0 \<le> weight elem" by (simp only:)
    then show False unfolding g0 by simp
  qed
  with k(1) have "k = 1" by simp
  with k(2) have "m_weights m' ! 0 = ?G 1" by (simp only:)
  with r show "\<exists>m'. computeMapping twoEdgeEnv twoEdgeStore freshConsistent = Inr m' \<and>
      m_weights m' ! 0 = [\<lparr>element = VertexPtr 0 2, weight = 13 / 20\<rparr>,
                          \<lparr>element = VertexPtr 0 3, weight = 7 / 20\<rparr>]"
    unfolding g1 by blast
next
  have h1: "getDimensions freshConsistent = 2"
    and h2: "inputMesh freshConsistent = Some 0" and h3: "outputMesh freshConsistent = Some 1"
    by (simp_all add: example_defs)
  have s: "searchSpaceOf freshConsistent 0 1 = 0" "originsOf freshConsistent 0 1 = 1"
    by (simp_all add: example_defs searchSpaceOf_def originsOf_def)
  have q: "queryVertices exampleEnv (noEdgeStore 0) [3 / 5, 0] 1 = [1]"
    by (simp add: example_defs sqDistance_def power2_eq_square)
  have h4: "\<forall>v\<in>set (vertices (noEdgeStore (originsOf freshConsistent 0 1))).
      list_all (\<lambda>k. k < length (edges (noEdgeStore (searchSpaceOf freshConsistent 0 1))))
        (queryEdges exampleEnv (noEdgeStore (searchSpaceOf freshConsistent 0 1)) (getCoords v) nnearest)"
    unfolding s by (simp add: example_defs)
  have h5: "\<forall>v\<in>set (vertices (noEdgeStore (originsOf freshConsistent 0 1))).
      nearestVertexAnswer (noEdgeStore (searchSpaceOf freshConsistent 0 1)) (getCoords v)
        (queryVertices exampleEnv (noEdgeStore (searchSpaceOf freshConsistent 0 1)) (getCoords v) 1)"
    unfolding s using q
    by (simp add: noEdgeStore_def nearestVertexAnswer_def sqDistance_def power2_eq_square)
  have h6: "vertices (noEdgeStore (searchSpaceOf freshConsistent 0 1)) \<noteq> []"
    unfolding s by (simp add: noEdgeStore_def)
  have h7: "0 < length (vertices (noEdgeStore (originsOf freshConsistent 0 1)))"
    unfolding s by (simp add: noEdgeStore_def)
  have e: "queryEdges exampleEnv (noEdgeStore 0) (getCoords (vertices (noEdgeStore 1) ! 0)) nnearest = []"
    by (simp add: example_defs)
  from computeMapping_2D_stencil [OF h1 h2 h3 h4 h5 h6 h7] e obtain m' u where
    r: "computeMapping exampleEnv noEdgeStore freshConsistent = Inr m'"
    and u: "u < length (vertices (noEdgeStore 0))"
      "\<forall>x\<in>set (vertices (noEdgeStore 0)).
         sqDistance (getCoords (vertices (noEdgeStore 1) ! 0)) (getCoords (vertices (noEdgeStore 0) ! u))
           \<le> sqDistance (getCoords (vertices (noEdgeStore 1) ! 0)) (getCoords x)"
    and w: "m_weights m' ! 0 = [\<lparr>element = VertexPtr 0 u, weight = 1\<rparr>]"
    unfolding s by auto
  have "u = 1"
  proof (rule ccontr)
    assume "u \<noteq> 1"
    then have "u = 0" using u(1) by (simp add: noEdgeStore_def)
    then show False using u(2) by (simp add: noEdgeStore_def sqDistance_def power2_eq_square)
  qed
  then show "\<exists>m'. computeMapping exampleEnv noEdgeStore freshConsistent = Inr m' \<and>
      m_weights m' ! 0 = [\<lparr>element = VertexPtr 0 1, weight = 1\<rparr>]" using r w by simp
qed

subsection \<open>Tagging\<close>

text \<open>
  Claim C7. Let both meshes be set, the index answer with positions of existing
  primitives, the mesh to tag (the input mesh for consistent, the output mesh for
  conservative) be well formed and the elements already in the table point into it. Then
  \<open>tagMeshFirstRound\<close> returns, and in the mesh to tag every vertex that an element of the
  computed table refers to with a nonzero weight (a weight that \<^verbatim>\<open>math::equals\<close> does
  not identify with 0) is tagged, and every vertex tagged before is still tagged.
\<close>

theorem tagMeshFirstRound_tags_referenced:
  fixes env \<sigma> m inp out
  defines "mid \<equiv> meshToTag m inp out"
  assumes inp: "inputMesh m = Some inp" and out: "outputMesh m = Some out"
    and valid: "\<forall>v\<in>set (vertices (\<sigma> (originsOf m inp out))).
                  validQueries env (getDimensions m) (\<sigma> mid) v"
    and wf: "wellFormed (\<sigma> mid)"
    and old: "pointsInto mid (length (vertices (\<sigma> mid))) (m_weights m)"
  shows "\<exists>m1 \<sigma>' m'. computeMapping env \<sigma> m = Inr m1 \<and>
           tagMeshFirstRound env \<sigma> m = Inr (\<sigma>', m') \<and>
           length (vertices (\<sigma>' mid)) = length (vertices (\<sigma> mid)) \<and>
           (\<forall>p<length (vertices (\<sigma> mid)).
              (referenced env (m_weights m1) (VertexPtr mid p) \<longrightarrow> isTagged (vertices (\<sigma>' mid) ! p)) \<and>
              (isTagged (vertices (\<sigma> mid) ! p) \<longrightarrow> isTagged (vertices (\<sigma>' mid) ! p)))"
proof -
  have same: "searchSpaceOf m inp out = mid" by (simp add: mid_def searchSpaceOf_def meshToTag_def)
  let ?n = "length (vertices (\<sigma> mid))"
  let ?V = "{VertexPtr mid p |p. p < ?n}"
  from computeMapping_pointsInto [OF inp out, of \<sigma> env] valid wf old same obtain ws where
    r: "computeMapping env \<sigma> m = Inr (m\<lparr>m_weights := ws, m_hasComputedMapping := True\<rparr>)"
    and pi: "pointsInto mid ?n ws"
    by auto
  let ?m1 = "m\<lparr>m_weights := ws, m_hasComputedMapping := True\<rparr>"
  let ?tagged = "gatherTagged env ?n ws []"
  let ?\<sigma>' = "\<sigma>(mid := (\<sigma> mid)\<lparr>vertices := tagVertices mid ?tagged 0 (vertices (\<sigma> mid))\<rparr>)"
  have t: "tagMeshFirstRound env \<sigma> m = Inr (?\<sigma>', clear ?m1)"
    using inp out r by (simp add: tagMeshFirstRound_def Let_def meshToTag_def mid_def)
  have "?V = (VertexPtr mid) ` {..<?n}" by auto
  moreover have "inj_on (VertexPtr mid) {..<?n}" by (simp add: inj_on_def)
  ultimately have fin: "finite ?V" and card: "card ?V = ?n"
    by (simp_all add: card_image)
  have inV: "\<forall>elems\<in>set ws. \<forall>elem\<in>set elems. element elem \<in> ?V"
  proof (intro ballI)
    fix elems elem assume "elems \<in> set ws" "elem \<in> set elems"
    then have "pointsTo mid ?n elem" using pi by (auto simp: pointsInto_def list_all_iff)
    then show "element elem \<in> ?V"
      by (cases "element elem") (simp add: pointsTo_def)
  qed
  have g: "set ?tagged = {element elem |elem elems. elems \<in> set ws \<and> elem \<in> set elems \<and>
                             \<not> equals env (weight elem) 0}"
    using gatherTagged_set [OF fin card _ _ inV, of "[]" env] by simp
  have l: "length (vertices (?\<sigma>' mid)) = ?n" by (simp add: tagVertices_length)
  have "\<forall>p<?n. (referenced env ws (VertexPtr mid p) \<longrightarrow> isTagged (vertices (?\<sigma>' mid) ! p)) \<and>
              (isTagged (vertices (\<sigma> mid) ! p) \<longrightarrow> isTagged (vertices (?\<sigma>' mid) ! p))"
  proof (intro allI impI)
    fix p assume p: "p < ?n"
    have n: "vertices (?\<sigma>' mid) ! p =
        (if VertexPtr mid p \<in> set ?tagged then tag (vertices (\<sigma> mid) ! p) else vertices (\<sigma> mid) ! p)"
      using p by (simp add: tagVertices_nth)
    have "referenced env ws (VertexPtr mid p) \<longrightarrow> VertexPtr mid p \<in> set ?tagged"
    proof
      assume "referenced env ws (VertexPtr mid p)"
      then obtain elems elem where "elems \<in> set ws" "elem \<in> set elems"
        "element elem = VertexPtr mid p" "\<not> equals env (weight elem) 0"
        by (auto simp: referenced_def list_ex_iff)
      then have "\<exists>elem' elems'. VertexPtr mid p = element elem' \<and> elems' \<in> set ws \<and>
                  elem' \<in> set elems' \<and> \<not> equals env (weight elem') 0"
        by metis
      then show "VertexPtr mid p \<in> set ?tagged" unfolding g by simp
    qed
    then show "(referenced env ws (VertexPtr mid p) \<longrightarrow> isTagged (vertices (?\<sigma>' mid) ! p)) \<and>
              (isTagged (vertices (\<sigma> mid) ! p) \<longrightarrow> isTagged (vertices (?\<sigma>' mid) ! p))"
      unfolding n by (auto simp: tag_def)
  qed
  with r t l show ?thesis by auto
qed

theorem tagMeshFirstRound_tags_referenced_witness:
  "\<exists>\<sigma>' m'. tagMeshFirstRound exampleEnv exampleStore freshConsistent = Inr (\<sigma>', m') \<and>
      isTagged (vertices (\<sigma>' 0) ! 0) \<and> isTagged (vertices (\<sigma>' 0) ! 1)"
proof -
  have h2: "inputMesh freshConsistent = Some 0" and h3: "outputMesh freshConsistent = Some 1"
    by (simp_all add: example_defs)
  have s: "meshToTag freshConsistent 0 1 = 0" "originsOf freshConsistent 0 1 = 1"
    by (simp_all add: example_defs meshToTag_def originsOf_def)
  have h4: "\<forall>v\<in>set (vertices (exampleStore (originsOf freshConsistent 0 1))).
      validQueries exampleEnv (getDimensions freshConsistent)
        (exampleStore (meshToTag freshConsistent 0 1)) v"
    unfolding s by (simp add: example_defs validQueries_def nnearest_def sqDistance_def)
  have h5: "wellFormed (exampleStore (meshToTag freshConsistent 0 1))"
    unfolding s by (simp add: example_defs wellFormed_def)
  have h6: "pointsInto (meshToTag freshConsistent 0 1)
      (length (vertices (exampleStore (meshToTag freshConsistent 0 1)))) (m_weights freshConsistent)"
    by (simp add: example_defs pointsInto_def)
  from tagMeshFirstRound_tags_referenced [OF h2 h3 h4 h5 h6] obtain m1 \<sigma>' m' where
    c: "computeMapping exampleEnv exampleStore freshConsistent = Inr m1"
    and t: "tagMeshFirstRound exampleEnv exampleStore freshConsistent = Inr (\<sigma>', m')"
    and p: "\<forall>p<length (vertices (exampleStore 0)).
              referenced exampleEnv (m_weights m1) (VertexPtr 0 p) \<longrightarrow> isTagged (vertices (\<sigma>' 0) ! p)"
    unfolding s by blast
  have m1: "m1 = computedConsistent" using c example_computeMapping by simp
  have "referenced exampleEnv (m_weights computedConsistent) (VertexPtr 0 0)"
    "referenced exampleEnv (m_weights computedConsistent) (VertexPtr 0 1)"
    by (simp_all add: referenced_def example_defs)
  moreover have "0 < length (vertices (exampleStore 0))" "1 < length (vertices (exampleStore 0))"
    by (simp_all add: example_defs)
  ultimately show ?thesis using p t m1 by blast
qed

end
